theory Spec2Isabelle
  imports Main "HOL-Library.Word"
begin

text \<open>
  A shallow embedding of two programs of the BEX CLI repository: the command-line agent
  (\<^verbatim>\<open>index.js\<close>), with its conversation history, its two language-model backends, its
  command table and the bounded loop of \<^verbatim>\<open>/task\<close>; and the file tool server, with its
  handler of \<^verbatim>\<open>POST /tools/:toolName\<close>. The model comes first, the properties after it.
  Mutable variables of a module are fields of a state that the functions take and return;
  an exception is a value (\<open>Inl\<close> with the message of the error); what the programs
  receive from outside (the answers of the backends, the file system, the platform) is a
  parameter.
\<close>

section \<open>JavaScript strings\<close>

text \<open>
  A JavaScript string is a sequence of 16-bit code units. Literals of the source are
  written with \<open>js\<close>, which reads an ASCII literal as its code units.
\<close>

type_synonym code_unit = "16 word"
type_synonym jsstring = "code_unit list"

definition js :: "string \<Rightarrow> jsstring" where
  "js s = map of_char s"

text \<open>\<^verbatim>\<open>s.startsWith(p)\<close>\<close>

fun startsWith :: "jsstring \<Rightarrow> jsstring \<Rightarrow> bool" where
  "startsWith s [] = True"
| "startsWith [] (p # ps) = False"
| "startsWith (c # cs) (p # ps) = (c = p \<and> startsWith cs ps)"

text \<open>\<^verbatim>\<open>s.includes(sub)\<close>: \<open>sub\<close> occurs somewhere in \<open>s\<close>.\<close>

fun includes_js :: "jsstring \<Rightarrow> jsstring \<Rightarrow> bool" where
  "includes_js [] sub = (sub = [])"
| "includes_js (c # cs) sub = (startsWith (c # cs) sub \<or> includes_js cs sub)"

text \<open>\<^verbatim>\<open>xs.join(sep)\<close>\<close>

fun join :: "jsstring \<Rightarrow> jsstring list \<Rightarrow> jsstring" where
  "join sep [] = []"
| "join sep [x] = x"
| "join sep (x # y # ys) = x @ sep @ join sep (y # ys)"

text \<open>
  \<^verbatim>\<open>s.trim()\<close> removes the white space and line terminators of ECMAScript from both
  ends.
\<close>

definition is_white :: "code_unit \<Rightarrow> bool" where
  "is_white c =
     (c \<in> set [0x09, 0x0A, 0x0B, 0x0C, 0x0D, 0x20, 0xA0, 0x1680, 0x2028, 0x2029, 0x202F, 0x205F,
                0x3000, 0xFEFF]
      \<or> (0x2000 \<le> c \<and> c \<le> 0x200A))"

definition trim :: "jsstring \<Rightarrow> jsstring" where
  "trim s = rev (dropWhile is_white (rev (dropWhile is_white s)))"

text \<open>
  \<^verbatim>\<open>s.toLowerCase()\<close>, on the code units whose lower case is an ASCII character: the
  letters A to Z and the Kelvin sign U+212A. Every other code unit is left as it is,
  where ECMAScript maps it to text that is not ASCII; the source only compares the result
  with ASCII literals (\<^verbatim>\<open>'/done'\<close>, \<^verbatim>\<open>'google'\<close>, \<^verbatim>\<open>'deepseek'\<close>, \<^verbatim>\<open>'auto'\<close>), and for
  those comparisons the two agree.
\<close>

definition lower_unit :: "code_unit \<Rightarrow> code_unit" where
  "lower_unit c = (if 0x41 \<le> c \<and> c \<le> 0x5A then c + 0x20 else if c = 0x212A then 0x6B else c)"

definition toLowerCase :: "jsstring \<Rightarrow> jsstring" where
  "toLowerCase s = map lower_unit s"

text \<open>\<^verbatim>\<open>s.split(' ')\<close>: the pieces between single spaces; never an empty array.\<close>

fun split_space :: "jsstring \<Rightarrow> jsstring list" where
  "split_space [] = [[]]"
| "split_space (c # cs) =
     (if c = 0x20 then [] # split_space cs
      else (case split_space cs of [] \<Rightarrow> [[c]] | p # ps \<Rightarrow> (c # p) # ps))"

section \<open>The tool server (\<^verbatim>\<open>POST /tools/:toolName\<close>)\<close>

subsection \<open>The file system the tools act on\<close>

text \<open>
  The three tools call \<^verbatim>\<open>fs.readFile\<close>, \<^verbatim>\<open>fs.writeFile\<close> and \<^verbatim>\<open>fs.appendFile\<close>.
  The file system is a map from paths to contents, together with \<open>fault\<close>: the message
  of the error with which an access to a path is refused (a directory, a missing parent
  directory, missing permissions), \<open>None\<close> where access is possible.
\<close>

record file_system =
  files :: "jsstring \<rightharpoonup> jsstring"
  fault :: "jsstring \<Rightarrow> jsstring option"

definition enoent :: "jsstring \<Rightarrow> jsstring" where
  "enoent p = js ''ENOENT: no such file or directory, open '' @ [0x27] @ p @ [0x27]"

definition fs_readFile :: "file_system \<Rightarrow> jsstring \<Rightarrow> jsstring + jsstring" where
  "fs_readFile fs p =
     (case fault fs p of
        Some e \<Rightarrow> Inl e
      | None \<Rightarrow> (case files fs p of None \<Rightarrow> Inl (enoent p) | Some c \<Rightarrow> Inr c))"

definition fs_writeFile :: "file_system \<Rightarrow> jsstring \<Rightarrow> jsstring \<Rightarrow> jsstring + file_system" where
  "fs_writeFile fs p c =
     (case fault fs p of
        Some e \<Rightarrow> Inl e
      | None \<Rightarrow> Inr (fs\<lparr>files := (files fs)(p \<mapsto> c)\<rparr>))"

definition fs_appendFile :: "file_system \<Rightarrow> jsstring \<Rightarrow> jsstring \<Rightarrow> jsstring + file_system" where
  "fs_appendFile fs p c =
     (case fault fs p of
        Some e \<Rightarrow> Inl e
      | None \<Rightarrow>
          Inr (fs\<lparr>files := (files fs)(p \<mapsto> (case files fs p of None \<Rightarrow> [] | Some old \<Rightarrow> old) @ c)\<rparr>))"

subsection \<open>Requests and responses\<close>

text \<open>
  The body of a response is \<^verbatim>\<open>{ output }\<close> or \<^verbatim>\<open>{ error }\<close>; \<^verbatim>\<open>res.json\<close> without
  \<^verbatim>\<open>res.status\<close> answers with status 200.
\<close>

datatype json_body = OutputBody jsstring | ErrorBody jsstring

record response =
  status :: nat
  body :: json_body

text \<open>The catalog \<^verbatim>\<open>tools\<close> served by \<^verbatim>\<open>GET /tools\<close>, by tool name.\<close>

definition tools :: "jsstring list" where
  "tools = [js ''readFile'', js ''writeFile'', js ''appendFile'']"

text \<open>
  \<^verbatim>\<open>path.isAbsolute\<close> depends on the platform, so the server takes it as a parameter;
  \<open>posix_isAbsolute\<close> is the POSIX one (the path starts with a slash).
\<close>

definition posix_isAbsolute :: "jsstring \<Rightarrow> bool" where
  "posix_isAbsolute p = (case p of [] \<Rightarrow> False | c # _ \<Rightarrow> c = 0x2F)"

text \<open>
  The request body's \<^verbatim>\<open>arguments\<close> may be absent (\<open>None\<close>); when present it is an array
  of strings. The guard of the handler:
  \<^verbatim>\<open>args && args[0] && (args[0].includes('..') || path.isAbsolute(args[0]))\<close>.
  An empty string is falsy.
\<close>

definition invalid_path :: "(jsstring \<Rightarrow> bool) \<Rightarrow> jsstring list option \<Rightarrow> bool" where
  "invalid_path isAbsolute args =
     (case args of
        None \<Rightarrow> False
      | Some [] \<Rightarrow> False
      | Some (a # _) \<Rightarrow> a \<noteq> [] \<and> (includes_js a (js ''..'') \<or> isAbsolute a))"

text \<open>
  \<^verbatim>\<open>args[0]\<close> inside the \<^verbatim>\<open>try\<close> block: reading index 0 of \<^verbatim>\<open>undefined\<close> throws a
  TypeError, and the \<^verbatim>\<open>fs\<close> functions throw a TypeError for the path \<^verbatim>\<open>undefined\<close> of an
  empty array.
\<close>

definition undefined_args_message :: jsstring where
  "undefined_args_message = js ''Cannot read properties of undefined (reading '' @ [0x27, 0x30, 0x27] @ js '')''"

definition undefined_path_message :: jsstring where
  "undefined_path_message =
     js ''The '' @ [0x22] @ js ''path'' @ [0x22] @
     js '' argument must be of type string or an instance of Buffer or URL. Received undefined''"

definition first_arg :: "jsstring list option \<Rightarrow> jsstring + jsstring" where
  "first_arg args =
     (case args of
        None \<Rightarrow> Inl undefined_args_message
      | Some [] \<Rightarrow> Inl undefined_path_message
      | Some (a # _) \<Rightarrow> Inr a)"

text \<open>\<^verbatim>\<open>args.slice(1).join(' ')\<close>, evaluated after \<^verbatim>\<open>args[0]\<close> has been read.\<close>

definition rest_joined :: "jsstring list option \<Rightarrow> jsstring" where
  "rest_joined args = (case args of None \<Rightarrow> [] | Some xs \<Rightarrow> join (js '' '') (tl xs))"

text \<open>
  The \<^verbatim>\<open>switch (toolName)\<close> inside the \<^verbatim>\<open>try\<close> block. \<open>None\<close> is the \<^verbatim>\<open>default\<close> case;
  \<open>Some (Inl message)\<close> is an exception thrown by the case's body; \<open>Some (Inr (out, fs'))\<close>
  is its \<^verbatim>\<open>result.output\<close> and the file system it leaves.
\<close>

definition run_tool ::
  "file_system \<Rightarrow> jsstring \<Rightarrow> jsstring list option \<Rightarrow> (jsstring + jsstring \<times> file_system) option" where
  "run_tool fs toolName args =
     (if toolName = js ''readFile'' then
        Some (case first_arg args of
                Inl e \<Rightarrow> Inl e
              | Inr a \<Rightarrow> (case fs_readFile fs a of Inl e \<Rightarrow> Inl e | Inr c \<Rightarrow> Inr (c, fs)))
      else if toolName = js ''writeFile'' then
        Some (case first_arg args of
                Inl e \<Rightarrow> Inl e
              | Inr a \<Rightarrow>
                  (case fs_writeFile fs a (rest_joined args) of
                     Inl e \<Rightarrow> Inl e
                   | Inr fs' \<Rightarrow> Inr (js ''Successfully wrote to '' @ a, fs')))
      else if toolName = js ''appendFile'' then
        Some (case first_arg args of
                Inl e \<Rightarrow> Inl e
              | Inr a \<Rightarrow>
                  (case fs_appendFile fs a ([0x0A] @ rest_joined args) of
                     Inl e \<Rightarrow> Inl e
                   | Inr fs' \<Rightarrow> Inr (js ''Successfully appended to '' @ a, fs')))
      else None)"

definition invalid_path_message :: jsstring where
  "invalid_path_message = js ''Invalid file path. Only relative paths are allowed.''"

text \<open>The handler of \<^verbatim>\<open>app.post('/tools/:toolName', ...)\<close>: the response and the file system left.\<close>

definition post_tool ::
  "(jsstring \<Rightarrow> bool) \<Rightarrow> file_system \<Rightarrow> jsstring \<Rightarrow> jsstring list option \<Rightarrow> response \<times> file_system" where
  "post_tool isAbsolute fs toolName args =
     (if invalid_path isAbsolute args then
        (\<lparr>status = 400, body = ErrorBody invalid_path_message\<rparr>, fs)
      else
        (case run_tool fs toolName args of
           None \<Rightarrow> (\<lparr>status = 404, body = ErrorBody (js ''Tool not found'')\<rparr>, fs)
         | Some (Inl e) \<Rightarrow> (\<lparr>status = 500, body = ErrorBody e\<rparr>, fs)
         | Some (Inr (out, fs')) \<Rightarrow> (\<lparr>status = 200, body = OutputBody out\<rparr>, fs')))"

text \<open>A file system with one file and one path that refuses access, for the concrete runs.\<close>

definition fs0 :: file_system where
  "fs0 = \<lparr>files = [js ''a.txt'' \<mapsto> js ''hello''],
           fault = (\<lambda>p. if p = js ''locked.txt'' then Some (js ''EACCES: permission denied'') else None)\<rparr>"

section \<open>The agent (\<^verbatim>\<open>index.js\<close>)\<close>

subsection \<open>The conversation and its snapshot\<close>

text \<open>
  \<^verbatim>\<open>let history = []; // { role: 'user'|'model'|'system', content: string }\<close>
\<close>

datatype role = User | Model | System

record turn =
  role :: role
  content :: jsstring

fun role_name :: "role \<Rightarrow> jsstring" where
  "role_name User = js ''user''"
| "role_name Model = js ''model''"
| "role_name System = js ''system''"

text \<open>
  \<^verbatim>\<open>JSON.stringify(history, null, 2)\<close>, after ECMA-262 (QuoteJSONString, SerializeJSONObject
  and SerializeJSONArray with the gap of two spaces). A surrogate pair is copied; an
  unpaired surrogate and a control character without a short escape are written as
  \<^verbatim>\<open>\uXXXX\<close> with lower-case hexadecimal digits.
\<close>

definition is_leading :: "code_unit \<Rightarrow> bool" where
  "is_leading c = (0xD800 \<le> c \<and> c \<le> 0xDBFF)"

definition is_trailing :: "code_unit \<Rightarrow> bool" where
  "is_trailing c = (0xDC00 \<le> c \<and> c \<le> 0xDFFF)"

definition hex_digit :: "nat \<Rightarrow> code_unit" where
  "hex_digit n = (if n < 10 then 0x30 + of_nat n else 0x61 + of_nat (n - 10))"

definition UnicodeEscape :: "code_unit \<Rightarrow> jsstring" where
  "UnicodeEscape c =
     [0x5C, 0x75, hex_digit (unat c div 4096 mod 16), hex_digit (unat c div 256 mod 16),
      hex_digit (unat c div 16 mod 16), hex_digit (unat c mod 16)]"

definition quote_unit :: "code_unit \<Rightarrow> jsstring" where
  "quote_unit c =
     (if c = 0x08 then [0x5C, 0x62]
      else if c = 0x09 then [0x5C, 0x74]
      else if c = 0x0A then [0x5C, 0x6E]
      else if c = 0x0C then [0x5C, 0x66]
      else if c = 0x0D then [0x5C, 0x72]
      else if c = 0x22 then [0x5C, 0x22]
      else if c = 0x5C then [0x5C, 0x5C]
      else if c < 0x20 \<or> is_leading c \<or> is_trailing c then UnicodeEscape c
      else [c])"

fun quote_units :: "jsstring \<Rightarrow> jsstring" where
  "quote_units [] = []"
| "quote_units [c] = quote_unit c"
| "quote_units (c # d # ds) =
     (if is_leading c \<and> is_trailing d then c # d # quote_units ds
      else quote_unit c @ quote_units (d # ds))"

definition QuoteJSONString :: "jsstring \<Rightarrow> jsstring" where
  "QuoteJSONString s = [0x22] @ quote_units s @ [0x22]"

definition stringify_turn :: "turn \<Rightarrow> jsstring" where
  "stringify_turn t =
     js ''{'' @ [0x0A] @
     js ''    '' @ QuoteJSONString (js ''role'') @ js '': '' @ QuoteJSONString (role_name (role t)) @
     js '','' @ [0x0A] @
     js ''    '' @ QuoteJSONString (js ''content'') @ js '': '' @ QuoteJSONString (content t) @
     [0x0A] @ js ''  }''"

definition JSON_stringify :: "turn list \<Rightarrow> jsstring" where
  "JSON_stringify h =
     (if h = [] then js ''[]''
      else js ''['' @ [0x0A] @ js ''  '' @
           join (js '','' @ [0x0A] @ js ''  '') (map stringify_turn h) @ [0x0A] @ js '']'')"

text \<open>
  \<^verbatim>\<open>fs.writeFileSync(file, text)\<close> stores the text in UTF-8, and
  \<^verbatim>\<open>fs.readFileSync(file, 'utf8')\<close> decodes it. A file is represented by the string
  that reading it returns: the text written, with each unpaired surrogate replaced by
  U+FFFD, as the encoder does.
\<close>

fun utf8_text :: "jsstring \<Rightarrow> jsstring" where
  "utf8_text [] = []"
| "utf8_text [c] = [if is_leading c \<or> is_trailing c then 0xFFFD else c]"
| "utf8_text (c # d # ds) =
     (if is_leading c \<and> is_trailing d then c # d # utf8_text ds
      else (if is_leading c \<or> is_trailing c then 0xFFFD else c) # utf8_text (d # ds))"

subsection \<open>Process-wide state\<close>

text \<open>
  \<^verbatim>\<open>currentProvider\<close> is \<^verbatim>\<open>'google'\<close>, \<^verbatim>\<open>'deepseek'\<close> or \<^verbatim>\<open>'auto'\<close>;
  \<^verbatim>\<open>pendingImage\<close> is \<^verbatim>\<open>null\<close> or \<^verbatim>\<open>{ inlineData: { data, mimeType } }\<close>.
\<close>

datatype provider = Google | DeepSeek | Auto

record image =
  data :: jsstring
  mimeType :: jsstring

text \<open>
  The variables of the module that the modelled code reads or writes, and the two pieces of
  its environment that it changes: \<open>memory_file\<close> is the file \<^verbatim>\<open>MEMORY_FILE\<close>
  (\<open>None\<close> when it does not exist), \<open>confirm_pending\<close> the questions
  \<^verbatim>\<open>rlConfirm.question\<close> has put to the operator and that wait for an answer, and
  \<open>browser_open\<close> says that \<^verbatim>\<open>browser\<close> is not \<^verbatim>\<open>null\<close>.
\<close>

record state =
  currentProvider :: provider
  history :: "turn list"
  pendingImage :: "image option"
  memory_file :: "jsstring option"
  confirm_pending :: "jsstring list"
  browser_open :: bool

text \<open>How the call of a command handler ends, as seen by the code that awaits it.\<close>

datatype outcome =
    Returns state
  | Throws jsstring state
  | Exits
  | Hangs

subsection \<open>The environment\<close>

text \<open>
  A request to Gemini: \<^verbatim>\<open>startChat({ history })\<close> followed by \<^verbatim>\<open>sendMessage(parts)\<close>;
  a chat entry is a role and the text of its single part. A request to DeepSeek is the
  list \<^verbatim>\<open>messages\<close> of role and content.
\<close>

record google_request =
  chatHistory :: "(jsstring \<times> jsstring) list"
  parts_text :: jsstring
  parts_image :: "image option"

type_synonym deepseek_request = "(jsstring \<times> jsstring) list"

text \<open>
  What the code cannot decide by itself. \<open>geminiModel\<close> and \<open>deepseek\<close> say whether the
  clients exist (the API keys were present at start). \<open>sendMessage\<close> and \<open>create\<close> are the
  two backends: \<open>Inr\<close> the text of the response, \<open>Inl\<close> the message of the error thrown (a
  response without text throws at its first use, and counts as an error).
  \<open>SYSTEM_INSTRUCTIONS\<close> is the text built by \<^verbatim>\<open>getSystemInstructions\<close>. \<open>file_exists\<close>
  answers \<^verbatim>\<open>fs.promises.access\<close>, \<open>browser_close_error\<close> is the error of
  \<^verbatim>\<open>browser.close()\<close> if it throws, and \<open>io_handler\<close> is the outcome of the handlers whose
  bodies are file, shell, browser or network operations, by command name.
\<close>

record world =
  geminiModel :: bool
  deepseek :: bool
  SYSTEM_INSTRUCTIONS :: jsstring
  sendMessage :: "google_request \<Rightarrow> jsstring + jsstring"
  create :: "deepseek_request \<Rightarrow> jsstring + jsstring"
  file_exists :: "jsstring \<Rightarrow> bool"
  browser_close_error :: "jsstring option"
  io_handler :: "jsstring \<Rightarrow> jsstring list \<Rightarrow> state \<Rightarrow> outcome"

subsection \<open>Context windows\<close>

text \<open>
  Gemini, in both paths:
  \<^verbatim>\<open>{ role: h.role === 'model' ? 'model' : 'user',
     parts: [{ text: (h.role === 'system' ? 'SYSTEM INFO: ' : '') + h.content }] }\<close>
\<close>

definition google_content :: "turn \<Rightarrow> jsstring \<times> jsstring" where
  "google_content h =
     (if role h = Model then js ''model'' else js ''user'',
      (if role h = System then js ''SYSTEM INFO: '' else []) @ content h)"

text \<open>
  DeepSeek in \<^verbatim>\<open>handleInput\<close>:
  \<^verbatim>\<open>{ role: h.role === 'model' ? 'assistant' : h.role, content: h.content }\<close>
\<close>

definition chat_deepseek_message :: "turn \<Rightarrow> jsstring \<times> jsstring" where
  "chat_deepseek_message h =
     (if role h = Model then js ''assistant'' else role_name (role h), content h)"

text \<open>
  DeepSeek in \<^verbatim>\<open>/task\<close>:
  \<^verbatim>\<open>{ role: h.role === 'model' ? 'assistant' : h.role === 'system' ? 'user' : h.role,
     content: h.content }\<close>
\<close>

definition task_deepseek_message :: "turn \<Rightarrow> jsstring \<times> jsstring" where
  "task_deepseek_message h =
     (if role h = Model then js ''assistant''
      else if role h = System then js ''user'' else role_name (role h),
      content h)"

subsection \<open>The provider gateway of \<^verbatim>\<open>handleInput\<close>\<close>

text \<open>
  \<^verbatim>\<open>callGoogle\<close>: the queued image is pushed onto \<^verbatim>\<open>parts\<close> and \<^verbatim>\<open>pendingImage\<close> is set
  to \<^verbatim>\<open>null\<close> before \<^verbatim>\<open>chat.sendMessage(parts)\<close> is awaited. The result is the response
  or the error, and the state the call leaves.
\<close>

definition callGoogle :: "world \<Rightarrow> bool \<Rightarrow> jsstring \<Rightarrow> state \<Rightarrow> (jsstring + jsstring) \<times> state" where
  "callGoogle w isSystemPrompt line s =
     (if \<not> geminiModel w then (Inl (js ''Google API Key missing.''), s)
      else
        (sendMessage w
           \<lparr>chatHistory = map google_content (if isSystemPrompt then history s else butlast (history s)),
            parts_text = line,
            parts_image = pendingImage s\<rparr>,
         s\<lparr>pendingImage := None\<rparr>))"

definition callDeepSeek :: "world \<Rightarrow> bool \<Rightarrow> jsstring \<Rightarrow> state \<Rightarrow> jsstring + jsstring" where
  "callDeepSeek w isSystemPrompt line s =
     (if \<not> deepseek w then Inl (js ''DeepSeek API Key missing.'')
      else
        create w
          ([(js ''system'', SYSTEM_INSTRUCTIONS w)] @ map chat_deepseek_message (history s) @
           (if isSystemPrompt then [(js ''user'', line)] else [])))"

text \<open>
  The inner \<^verbatim>\<open>try\<close>/\<^verbatim>\<open>catch\<close> of \<^verbatim>\<open>handleInput\<close>: \<^verbatim>\<open>providerToUse\<close> is Google in mode
  \<^verbatim>\<open>auto\<close>; when the call throws in mode \<^verbatim>\<open>auto\<close>, DeepSeek is called, and its error is
  not caught here.
\<close>

definition provider_call :: "world \<Rightarrow> bool \<Rightarrow> jsstring \<Rightarrow> state \<Rightarrow> (jsstring + jsstring) \<times> state" where
  "provider_call w isSystemPrompt line s =
     (let providerToUse = (if currentProvider s = Auto then Google else currentProvider s) in
      case (if providerToUse = Google then callGoogle w isSystemPrompt line s
            else (callDeepSeek w isSystemPrompt line s, s)) of
        (Inr response, s1) \<Rightarrow> (Inr response, s1)
      | (Inl err, s1) \<Rightarrow>
          (if currentProvider s = Auto \<and> providerToUse = Google
           then (callDeepSeek w isSystemPrompt line s1, s1)
           else (Inl err, s1)))"

text \<open>
  The branch "AI Chat" of \<^verbatim>\<open>handleInput(line, isSystemPrompt)\<close>, for a trimmed, non-empty
  line that is not a command, up to and including \<^verbatim>\<open>fs.writeFileSync(MEMORY_FILE, ...)\<close>.
  The result is the message of the error reported, if any, and the state. (The code that
  follows in the source, which runs a response that is a JSON array as a plan by calling
  \<^verbatim>\<open>handleInput\<close> on each of its entries, is not part of this function.)
\<close>

definition handleInput_chat :: "world \<Rightarrow> jsstring \<Rightarrow> bool \<Rightarrow> state \<Rightarrow> jsstring option \<times> state" where
  "handleInput_chat w line isSystemPrompt s =
     (let s0 = (if isSystemPrompt then s
                else s\<lparr>history := history s @ [\<lparr>role = User, content = line\<rparr>]\<rparr>) in
      case provider_call w isSystemPrompt line s0 of
        (Inl e, s1) \<Rightarrow> (Some e, s1)
      | (Inr response, s1) \<Rightarrow>
          (let h = history s1 @ [\<lparr>role = Model, content = response\<rparr>] in
           (None, s1\<lparr>history := h, memory_file := Some (utf8_text (JSON_stringify h))\<rparr>)))"

subsection \<open>The command table\<close>

type_synonym handler = "jsstring list \<Rightarrow> state \<Rightarrow> outcome"

text \<open>
  Handlers that only print, or that change variables outside \<open>state\<close> (\<^verbatim>\<open>/help\<close>,
  \<^verbatim>\<open>/menu\<close>, \<^verbatim>\<open>/auto\<close>, \<^verbatim>\<open>/mcp_list\<close>, \<^verbatim>\<open>/mcp_add\<close>, \<^verbatim>\<open>/multiline\<close>, \<^verbatim>\<open>/status\<close>,
  \<^verbatim>\<open>/persistent\<close>).
\<close>

definition console_handler :: handler where
  "console_handler args s = Returns s"

text \<open>\<^verbatim>\<open>/quit\<close>: closes the browser if there is one, then \<^verbatim>\<open>process.exit(0)\<close>.\<close>

definition quit_handler :: "world \<Rightarrow> handler" where
  "quit_handler w args s =
     (if browser_open s then (case browser_close_error w of Some e \<Rightarrow> Throws e s | None \<Rightarrow> Exits)
      else Exits)"

text \<open>\<^verbatim>\<open>/clear\<close>\<close>

definition clear_handler :: handler where
  "clear_handler args s = Returns (s\<lparr>history := [], pendingImage := None, memory_file := None\<rparr>)"

text \<open>\<^verbatim>\<open>/provider\<close>: \<^verbatim>\<open>args[0]?.toLowerCase()\<close> must be one of the three names.\<close>

definition provider_handler :: handler where
  "provider_handler args s =
     (case args of
        [] \<Rightarrow> Returns s
      | a # _ \<Rightarrow>
          (let p = toLowerCase a in
           if p = js ''google'' then Returns (s\<lparr>currentProvider := Google\<rparr>)
           else if p = js ''deepseek'' then Returns (s\<lparr>currentProvider := DeepSeek\<rparr>)
           else if p = js ''auto'' then Returns (s\<lparr>currentProvider := Auto\<rparr>)
           else Returns s))"

text \<open>
  \<^verbatim>\<open>/delete\<close>: without a file name, or when the file does not exist, it prints and
  returns. Otherwise it asks the operator to type the file name
  (\<^verbatim>\<open>rlConfirm.question(...)\<close>) and returns; the file is deleted by the callback, when the
  operator has answered with the file name.
\<close>

definition delete_handler :: "world \<Rightarrow> handler" where
  "delete_handler w args s =
     (case args of
        [] \<Rightarrow> Returns s
      | file # _ \<Rightarrow>
          (if file = [] then Returns s
           else if \<not> file_exists w file then Returns s
           else Returns (s\<lparr>confirm_pending := confirm_pending s @ [file]\<rparr>)))"

text \<open>
  The object \<^verbatim>\<open>commands\<close>, in the order of the source. The handlers whose bodies are
  file, shell, browser or network operations take their outcome from the environment;
  among them \<^verbatim>\<open>/task\<close> and \<^verbatim>\<open>/workflow\<close>, which enter the agent loop and \<^verbatim>\<open>handleInput\<close>
  again.
\<close>

definition commands :: "world \<Rightarrow> (jsstring \<times> handler) list" where
  "commands w =
     [(js ''/help'', console_handler),
      (js ''/menu'', console_handler),
      (js ''/quit'', quit_handler w),
      (js ''/clear'', clear_handler),
      (js ''/provider'', provider_handler),
      (js ''/ls'', io_handler w (js ''/ls'')),
      (js ''/read'', io_handler w (js ''/read'')),
      (js ''/write'', io_handler w (js ''/write'')),
      (js ''/append'', io_handler w (js ''/append'')),
      (js ''/delete'', delete_handler w),
      (js ''/rename'', io_handler w (js ''/rename'')),
      (js ''/save'', io_handler w (js ''/save'')),
      (js ''/download'', io_handler w (js ''/download'')),
      (js ''/image'', io_handler w (js ''/image'')),
      (js ''/sandbox'', io_handler w (js ''/sandbox'')),
      (js ''/exec'', io_handler w (js ''/exec'')),
      (js ''/task'', io_handler w (js ''/task'')),
      (js ''/auto'', console_handler),
      (js ''/workflow'', io_handler w (js ''/workflow'')),
      (js ''/browser'', io_handler w (js ''/browser'')),
      (js ''/google'', io_handler w (js ''/google'')),
      (js ''/url'', io_handler w (js ''/url'')),
      (js ''/open'', io_handler w (js ''/open'')),
      (js ''/visit'', io_handler w (js ''/visit'')),
      (js ''/click'', io_handler w (js ''/click'')),
      (js ''/type'', io_handler w (js ''/type'')),
      (js ''/dump'', io_handler w (js ''/dump'')),
      (js ''/screenshot'', io_handler w (js ''/screenshot'')),
      (js ''/mcp_list'', console_handler),
      (js ''/mcp_add'', console_handler),
      (js ''/mcp_tools'', io_handler w (js ''/mcp_tools'')),
      (js ''/mcp_call'', io_handler w (js ''/mcp_call'')),
      (js ''/multiline'', console_handler),
      (js ''/status'', console_handler),
      (js ''/persistent'', console_handler),
      (js ''/grep'', io_handler w (js ''/grep'')),
      (js ''/glob'', io_handler w (js ''/glob'')),
      (js ''/git'', io_handler w (js ''/git'')),
      (js ''/project'', io_handler w (js ''/project'')),
      (js ''/memory'', io_handler w (js ''/memory''))]"


subsection \<open>The agent loop (\<^verbatim>\<open>/task\<close>)\<close>

text \<open>The content of the user turn that \<^verbatim>\<open>/task\<close> pushes before the loop.\<close>

definition unlines :: "jsstring list \<Rightarrow> jsstring" where
  "unlines ls = concat (map (\<lambda>l. l @ [0x0A]) ls)"

definition task_prompt :: "jsstring \<Rightarrow> jsstring" where
  "task_prompt goal =
     unlines
       [js ''GOAL: '' @ goal,
        js '''',
        js ''You are an autonomous agent. Execute the task step-by-step.'',
        js ''AVAILABLE COMMANDS:'',
        js ''- /exec <cmd>: Run shell command'',
        js ''- /read <file>: Read file'',
        js ''- /write <file> <content>: Write file (creates/overwrites)'',
        js ''- /append <file> <content>: Append to file'',
        js ''- /ls [path]: List files'',
        js ''- /browser: Open browser'',
        js ''- /visit <url>: Visit website'',
        js ''- /dump: Get page text'',
        js ''- /click <selector>: Click element'',
        js ''- /type <selector> <text>: Type text'',
        js ''- /google <query>: Search Google'',
        js ''- /done: Task complete'',
        js '''',
        js ''INSTRUCTIONS:'',
        js ''1. Output ONE command at a time.'',
        js ''2. Wait for the result (SYSTEM INFO).'',
        js ''3. If the goal is achieved, output '' @ [0x22] @ js ''/done'' @ [0x22] @ js ''.'',
        js ''4. Do not output markdown blocks for commands, just the command text.'']"

text \<open>
  The request of a loop step to Gemini: the last turn of the history is the message sent,
  the turns before it are the chat history. \<open>None\<close> for an empty history, where
  \<^verbatim>\<open>lastMsg.role\<close> throws a TypeError.
\<close>

definition task_google_request :: "turn list \<Rightarrow> google_request option" where
  "task_google_request h =
     (case rev h of
        [] \<Rightarrow> None
      | lastMsg # _ \<Rightarrow>
          Some \<lparr>chatHistory = map google_content (butlast h),
                parts_text = (if role lastMsg = System then js ''SYSTEM INFO: '' else []) @ content lastMsg,
                parts_image = None\<rparr>)"

text \<open>
  The provider call of a loop step. In mode \<^verbatim>\<open>auto\<close> DeepSeek is chosen when there is no
  Gemini client; otherwise Gemini is called, and an error of that call is not followed by
  a call of DeepSeek.
\<close>

definition task_provider_call :: "world \<Rightarrow> state \<Rightarrow> jsstring + jsstring" where
  "task_provider_call w s =
     (if currentProvider s = DeepSeek \<or> (currentProvider s = Auto \<and> \<not> geminiModel w) then
        (if \<not> deepseek w then Inl (js ''DeepSeek API Key missing.'')
         else create w ([(js ''system'', SYSTEM_INSTRUCTIONS w)] @ map task_deepseek_message (history s)))
      else
        (if \<not> geminiModel w then Inl (js ''Google API Key missing.'')
         else
           (case task_google_request (history s) of
              None \<Rightarrow>
                Inl (js ''Cannot read properties of undefined (reading '' @ [0x27] @ js ''role'' @ [0x27] @ js '')'')
            | Some request \<Rightarrow> sendMessage w request)))"

text \<open>
  How the loop ends: \<^verbatim>\<open>break\<close> after \<^verbatim>\<open>/done\<close>; \<^verbatim>\<open>break\<close> in the \<^verbatim>\<open>catch\<close> block, with
  the message given to \<^verbatim>\<open>spinner.fail\<close>; the loop condition turning false; and, outside
  the loop's control, the process exiting or a handler never returning.
\<close>

datatype terminal = DONE | ABORTED jsstring | MAX_STEPS_REACHED | EXITED | HUNG

datatype step_result = Continue state | Stop terminal state

text \<open>
  What the loop does with the outcome of the handler it awaited: it goes on when the
  handler returned, and an exception reaches the \<^verbatim>\<open>catch\<close> of the loop body. \<open>s1\<close> is
  the state in which the handler was called.
\<close>

definition handler_result :: "state \<Rightarrow> outcome \<Rightarrow> step_result" where
  "handler_result s1 out =
     (case out of
        Returns s2 \<Rightarrow> Continue s2
      | Throws e s2 \<Rightarrow> Stop (ABORTED e) s2
      | Exits \<Rightarrow> Stop EXITED s1
      | Hangs \<Rightarrow> Stop HUNG s1)"

text \<open>
  The body of the \<^verbatim>\<open>while\<close> loop. \<open>cmds\<close> is the lookup \<^verbatim>\<open>commands[cmd]\<close>. An exception
  of the provider call reaches the \<^verbatim>\<open>catch\<close> of the body too.
\<close>

definition agent_step :: "world \<Rightarrow> (jsstring \<Rightarrow> handler option) \<Rightarrow> state \<Rightarrow> step_result" where
  "agent_step w cmds s =
     (case task_provider_call w s of
        Inl e \<Rightarrow> Stop (ABORTED e) s
      | Inr response \<Rightarrow>
          (let command = trim response;
               s1 = s\<lparr>history := history s @ [\<lparr>role = Model, content = command\<rparr>]\<rparr>
           in if toLowerCase command = js ''/done'' then Stop DONE s1
              else if startsWith command (js ''/'') then
                (case split_space command of
                   [] \<Rightarrow> Continue s1
                 | cmd # args \<Rightarrow>
                     (case cmds cmd of
                        Some handler \<Rightarrow> handler_result s1 (handler args s1)
                      | None \<Rightarrow>
                          Continue (s1\<lparr>history := history s1 @
                                      [\<lparr>role = System, content = js ''Unknown command.''\<rparr>]\<rparr>)))
              else Continue s1))"

text \<open>
  \<^verbatim>\<open>while (step++ < maxSteps) { ... }\<close>, with the bound as a parameter: \<open>step\<close>
  counts the bodies run so far. The result is how the loop ended, the number of steps
  performed, and the state.
\<close>

function agent_steps ::
  "world \<Rightarrow> (jsstring \<Rightarrow> handler option) \<Rightarrow> nat \<Rightarrow> nat \<Rightarrow> state \<Rightarrow> terminal \<times> nat \<times> state" where
  "agent_steps w cmds bound step s =
     (if step < bound then
        (case agent_step w cmds s of
           Continue s' \<Rightarrow> agent_steps w cmds bound (Suc step) s'
         | Stop t s' \<Rightarrow> (t, Suc step, s'))
      else (MAX_STEPS_REACHED, step, s))"
  by pat_completeness auto
termination
  by (relation "measure (\<lambda>(w, cmds, bound, step, s). bound - step)") auto

declare agent_steps.simps [simp del]

text \<open>
  The handler of \<^verbatim>\<open>/task\<close>: it pushes the user turn with the goal and runs the loop,
  with \<^verbatim>\<open>const maxSteps = 20\<close> and the table \<^verbatim>\<open>commands\<close>. \<open>run_task\<close> is the same with
  the bound and the table as parameters.
\<close>

definition start_task :: "jsstring list \<Rightarrow> state \<Rightarrow> state" where
  "start_task args s =
     s\<lparr>history := history s @ [\<lparr>role = User, content = task_prompt (join (js '' '') args)\<rparr>]\<rparr>"

definition run_task ::
  "world \<Rightarrow> (jsstring \<Rightarrow> handler option) \<Rightarrow> nat \<Rightarrow> jsstring list \<Rightarrow> state \<Rightarrow> terminal \<times> nat \<times> state" where
  "run_task w cmds bound args s = agent_steps w cmds bound 0 (start_task args s)"

definition maxSteps :: nat where
  "maxSteps = 20"

definition task :: "world \<Rightarrow> jsstring list \<Rightarrow> state \<Rightarrow> terminal \<times> nat \<times> state" where
  "task w args s = run_task w (map_of (commands w)) maxSteps args s"

subsection \<open>Reading the snapshot back\<close>

text \<open>
  \<^verbatim>\<open>JSON.parse\<close>, after the JSON grammar of ECMA-404, for the documents the snapshot file
  can hold: an array of objects whose members are strings. White space is space, tab,
  line feed and carriage return. The result \<open>None\<close> is a syntax error, or a document with
  a value of another kind (a number, a literal, a nested array or object).
  Every parser returns its value and the text left.
\<close>

definition is_json_ws :: "code_unit \<Rightarrow> bool" where
  "is_json_ws c = (c = 0x20 \<or> c = 0x09 \<or> c = 0x0A \<or> c = 0x0D)"

definition skip_ws :: "jsstring \<Rightarrow> jsstring" where
  "skip_ws s = dropWhile is_json_ws s"

definition hex_value :: "code_unit \<Rightarrow> nat option" where
  "hex_value c =
     (if 0x30 \<le> c \<and> c \<le> 0x39 then Some (unat c - 0x30)
      else if 0x61 \<le> c \<and> c \<le> 0x66 then Some (unat c - 0x61 + 10)
      else if 0x41 \<le> c \<and> c \<le> 0x46 then Some (unat c - 0x41 + 10)
      else None)"

definition hex4 :: "code_unit \<Rightarrow> code_unit \<Rightarrow> code_unit \<Rightarrow> code_unit \<Rightarrow> code_unit option" where
  "hex4 a b c d =
     (case (hex_value a, hex_value b, hex_value c, hex_value d) of
        (Some p, Some q, Some r, Some s) \<Rightarrow> Some (of_nat (4096 * p + 256 * q + 16 * r + s))
      | _ \<Rightarrow> None)"

text \<open>The character after a backslash, other than \<^verbatim>\<open>u\<close>.\<close>

definition unescape :: "code_unit \<Rightarrow> code_unit option" where
  "unescape e =
     (if e = 0x22 then Some 0x22
      else if e = 0x5C then Some 0x5C
      else if e = 0x2F then Some 0x2F
      else if e = 0x62 then Some 0x08
      else if e = 0x66 then Some 0x0C
      else if e = 0x6E then Some 0x0A
      else if e = 0x72 then Some 0x0D
      else if e = 0x74 then Some 0x09
      else None)"

text \<open>
  The characters of a string literal after its opening quote, up to and including the
  closing quote. A control character below U+0020 is not allowed unescaped.
\<close>

fun parse_chars :: "jsstring \<Rightarrow> (jsstring \<times> jsstring) option" where
  "parse_chars [] = None"
| "parse_chars (c # cs) =
     (if c = 0x22 then Some ([], cs)
      else if c = 0x5C then
        (case cs of
           [] \<Rightarrow> None
         | e # es \<Rightarrow>
             (if e = 0x75 then
                (case es of
                   h3 # h2 # h1 # h0 # rest \<Rightarrow>
                     (case hex4 h3 h2 h1 h0 of
                        None \<Rightarrow> None
                      | Some u \<Rightarrow>
                          (case parse_chars rest of None \<Rightarrow> None | Some (s, r) \<Rightarrow> Some (u # s, r)))
                 | _ \<Rightarrow> None)
              else
                (case unescape e of
                   None \<Rightarrow> None
                 | Some u \<Rightarrow>
                     (case parse_chars es of None \<Rightarrow> None | Some (s, r) \<Rightarrow> Some (u # s, r)))))
      else if c < 0x20 then None
      else (case parse_chars cs of None \<Rightarrow> None | Some (s, r) \<Rightarrow> Some (c # s, r)))"

definition parse_string :: "jsstring \<Rightarrow> (jsstring \<times> jsstring) option" where
  "parse_string s = (case s of [] \<Rightarrow> None | q # cs \<Rightarrow> if q = 0x22 then parse_chars cs else None)"

text \<open>A member \<^verbatim>\<open>"key": "value"\<close> of an object.\<close>

definition parse_member :: "jsstring \<Rightarrow> ((jsstring \<times> jsstring) \<times> jsstring) option" where
  "parse_member s =
     (case parse_string s of
        None \<Rightarrow> None
      | Some (k, r1) \<Rightarrow>
          (case skip_ws r1 of
             [] \<Rightarrow> None
           | c # r2 \<Rightarrow>
               (if c \<noteq> 0x3A then None
                else (case parse_string (skip_ws r2) of
                        None \<Rightarrow> None
                      | Some (v, r3) \<Rightarrow> Some ((k, v), r3)))))"

lemma parse_chars_shorter: "parse_chars s = Some (x, r) \<Longrightarrow> length r < length s"
proof (induction s arbitrary: x r rule: parse_chars.induct)
  case 1
  then show ?case by simp
next
  case (2 c cs)
  show ?case
  proof (cases "c = 0x22")
    case True
    with "2.prems" show ?thesis by simp
  next
    case nq: False
    show ?thesis
    proof (cases "c = 0x5C")
      case True
      show ?thesis
      proof (cases cs)
        case Nil
        with "2.prems" nq True show ?thesis by simp
      next
        case (Cons e es)
        show ?thesis
        proof (cases "e = 0x75")
          case u: True
          from "2.prems" nq True Cons u obtain h3 h2 h1 h0 rest v s' where
            es: "es = h3 # h2 # h1 # h0 # rest" and h: "hex4 h3 h2 h1 h0 = Some v"
            and p: "parse_chars rest = Some (s', r)"
            by (auto split: list.splits option.splits)
          have "length r < length rest"
            using "2.IH"(1) [OF nq True Cons u es refl refl refl h p] .
          with Cons es show ?thesis by simp
        next
          case nu: False
          from "2.prems" nq True Cons nu obtain v s' where
            h: "unescape e = Some v" and p: "parse_chars es = Some (s', r)"
            by (auto split: option.splits)
          have "length r < length es"
            using "2.IH"(2) [OF nq True Cons nu h p] .
          with Cons show ?thesis by simp
        qed
      qed
    next
      case nb: False
      from "2.prems" nq nb obtain s' where c20: "\<not> c < 0x20" and p: "parse_chars cs = Some (s', r)"
        by (auto split: option.splits if_splits)
      have "length r < length cs"
        using "2.IH"(3) [OF nq nb c20 p] .
      then show ?thesis by simp
    qed
  qed
qed

lemma skip_ws_length: "length (skip_ws s) \<le> length s"
  by (simp add: skip_ws_def length_dropWhile_le)

lemma parse_string_shorter: "parse_string s = Some (x, r) \<Longrightarrow> length r < length s"
  by (auto simp: parse_string_def split: list.splits if_splits dest: parse_chars_shorter)

lemma parse_member_shorter: "parse_member s = Some (m, r) \<Longrightarrow> length r < length s"
proof -
  assume a: "parse_member s = Some (m, r)"
  then obtain k r1 c r2 v where
    1: "parse_string s = Some (k, r1)" and 2: "skip_ws r1 = c # r2"
    and 3: "parse_string (skip_ws r2) = Some (v, r)"
    by (auto simp: parse_member_def split: option.splits list.splits if_splits)
  have "length r < length (skip_ws r2)" using 3 by (rule parse_string_shorter)
  also have "\<dots> \<le> length r2" by (rule skip_ws_length)
  also have "\<dots> < length (skip_ws r1)" using 2 by simp
  also have "\<dots> \<le> length r1" by (rule skip_ws_length)
  also have "\<dots> < length s" using 1 by (rule parse_string_shorter)
  finally show ?thesis .
qed

text \<open>The members of an object after its opening brace, up to and including the closing brace.\<close>

function parse_members :: "jsstring \<Rightarrow> ((jsstring \<times> jsstring) list \<times> jsstring) option" where
  "parse_members s =
     (case parse_member s of
        None \<Rightarrow> None
      | Some (m, r) \<Rightarrow>
          (case skip_ws r of
             [] \<Rightarrow> None
           | c # r' \<Rightarrow>
               (if c = 0x7D then Some ([m], r')
                else if c = 0x2C then
                  (case parse_members (skip_ws r') of
                     None \<Rightarrow> None
                   | Some (ms, r'') \<Rightarrow> Some (m # ms, r''))
                else None)))"
  by pat_completeness auto
termination
proof (relation "measure length")
  show "wf (measure length)" by simp
next
  fix s :: jsstring and x2 m r c r'
  assume "parse_member s = Some x2" and "(m, r) = x2" and sk: "skip_ws r = c # r'"
  then have "length r < length s"
    using parse_member_shorter [of s m r] by simp
  moreover have "length (skip_ws r') \<le> length r'" by (rule skip_ws_length)
  moreover have "length r' < length (skip_ws r)" using sk by simp
  moreover have "length (skip_ws r) \<le> length r" by (rule skip_ws_length)
  ultimately show "(skip_ws r', s) \<in> measure length" by simp
qed

declare parse_members.simps [simp del]

definition parse_object :: "jsstring \<Rightarrow> ((jsstring \<times> jsstring) list \<times> jsstring) option" where
  "parse_object s =
     (case s of
        [] \<Rightarrow> None
      | c # r \<Rightarrow>
          (if c \<noteq> 0x7B then None
           else (case skip_ws r of
                   [] \<Rightarrow> None
                 | d # r' \<Rightarrow> if d = 0x7D then Some ([], r') else parse_members (skip_ws r))))"

lemma parse_members_shorter: "parse_members s = Some (ms, r) \<Longrightarrow> length r < length s"
proof (induction s arbitrary: ms r rule: parse_members.induct)
  case (1 s)
  from "1.prems" obtain m r1 c r' where
    pm: "parse_member s = Some (m, r1)" and sk: "skip_ws r1 = c # r'"
    by (subst (asm) parse_members.simps) (auto split: option.splits list.splits)
  have r1: "length r1 < length s" using pm by (rule parse_member_shorter)
  have r': "length r' < length r1"
    using sk skip_ws_length [of r1] by simp
  show ?case
  proof (cases "c = 0x7D")
    case True
    with "1.prems" pm sk have "r = r'"
      by (subst (asm) parse_members.simps) simp
    with r1 r' show ?thesis by simp
  next
    case False
    with "1.prems" pm sk obtain ms' where comma: "c = 0x2C"
      and rec: "parse_members (skip_ws r') = Some (ms', r)"
      by (subst (asm) parse_members.simps) (auto split: option.splits if_splits)
    have "length r < length (skip_ws r')"
      using "1.IH" [OF pm refl sk False comma rec] .
    with skip_ws_length [of r'] r1 r' show ?thesis by simp
  qed
qed

lemma parse_object_shorter: "parse_object s = Some (ms, r) \<Longrightarrow> length r < length s"
proof -
  assume a: "parse_object s = Some (ms, r)"
  then obtain c s' d r' where s: "s = c # s'" and sk: "skip_ws s' = d # r'"
    by (auto simp: parse_object_def split: list.splits if_splits)
  show ?thesis
  proof (cases "d = 0x7D")
    case True
    with a s sk have "r = r'" by (simp add: parse_object_def split: if_splits)
    with sk skip_ws_length [of s'] s show ?thesis by simp
  next
    case False
    with a s sk have "parse_members (skip_ws s') = Some (ms, r)"
      by (simp add: parse_object_def split: if_splits)
    then have "length r < length (skip_ws s')" by (rule parse_members_shorter)
    with skip_ws_length [of s'] s show ?thesis by simp
  qed
qed

text \<open>The elements of an array after its opening bracket, up to and including the closing bracket.\<close>

function parse_elements :: "jsstring \<Rightarrow> ((jsstring \<times> jsstring) list list \<times> jsstring) option" where
  "parse_elements s =
     (case parse_object s of
        None \<Rightarrow> None
      | Some (obj, r) \<Rightarrow>
          (case skip_ws r of
             [] \<Rightarrow> None
           | c # r' \<Rightarrow>
               (if c = 0x5D then Some ([obj], r')
                else if c = 0x2C then
                  (case parse_elements (skip_ws r') of
                     None \<Rightarrow> None
                   | Some (objs, r'') \<Rightarrow> Some (obj # objs, r''))
                else None)))"
  by pat_completeness auto
termination
proof (relation "measure length")
  show "wf (measure length)" by simp
next
  fix s :: jsstring and x2 obj r c r'
  assume "parse_object s = Some x2" and "(obj, r) = x2" and sk: "skip_ws r = c # r'"
  then have "length r < length s"
    using parse_object_shorter [of s obj r] by simp
  moreover have "length (skip_ws r') \<le> length r'" by (rule skip_ws_length)
  moreover have "length r' < length (skip_ws r)" using sk by simp
  moreover have "length (skip_ws r) \<le> length r" by (rule skip_ws_length)
  ultimately show "(skip_ws r', s) \<in> measure length" by simp
qed

declare parse_elements.simps [simp del]

definition parse_array :: "jsstring \<Rightarrow> ((jsstring \<times> jsstring) list list \<times> jsstring) option" where
  "parse_array s =
     (case s of
        [] \<Rightarrow> None
      | c # r \<Rightarrow>
          (if c \<noteq> 0x5B then None
           else (case skip_ws r of
                   [] \<Rightarrow> None
                 | d # r' \<Rightarrow> if d = 0x5D then Some ([], r') else parse_elements (skip_ws r))))"

definition JSON_parse :: "jsstring \<Rightarrow> (jsstring \<times> jsstring) list list option" where
  "JSON_parse text =
     (case parse_array (skip_ws text) of
        None \<Rightarrow> None
      | Some (objs, r) \<Rightarrow> if skip_ws r = [] then Some objs else None)"

text \<open>The object that a turn is: its members, in the order in which they are written.\<close>

definition turn_object :: "turn \<Rightarrow> (jsstring \<times> jsstring) list" where
  "turn_object t = [(js ''role'', role_name (role t)), (js ''content'', content t)]"

text \<open>
  The parsed array as a conversation: every element must be a turn, an object with the
  members \<^verbatim>\<open>role\<close> (one of the three role names) and \<^verbatim>\<open>content\<close> and no other. Where a
  name occurs twice, \<^verbatim>\<open>JSON.parse\<close> keeps the last value.
\<close>

definition role_of_name :: "jsstring \<Rightarrow> role option" where
  "role_of_name n =
     (if n = js ''user'' then Some User
      else if n = js ''model'' then Some Model
      else if n = js ''system'' then Some System
      else None)"

definition turn_of_object :: "(jsstring \<times> jsstring) list \<Rightarrow> turn option" where
  "turn_of_object ms =
     (case (map_of (rev ms) (js ''role''), map_of (rev ms) (js ''content'')) of
        (Some r, Some c) \<Rightarrow>
          (if list_all (\<lambda>m. fst m = js ''role'' \<or> fst m = js ''content'') ms
           then (case role_of_name r of None \<Rightarrow> None | Some ro \<Rightarrow> Some \<lparr>role = ro, content = c\<rparr>)
           else None)
      | _ \<Rightarrow> None)"

text \<open>
  The start of the process:
  \<^verbatim>\<open>if (fs.existsSync(MEMORY_FILE)) history = JSON.parse(fs.readFileSync(MEMORY_FILE, 'utf8'))\<close>.
  \<open>restore\<close> is the conversation read from the text of the file, \<open>None\<close> when the text
  is not the snapshot of a conversation.
\<close>

definition restore :: "jsstring \<Rightarrow> turn list option" where
  "restore text =
     (case JSON_parse text of
        None \<Rightarrow> None
      | Some objs \<Rightarrow> those (map turn_of_object objs))"

definition restore_at_startup :: "state \<Rightarrow> state option" where
  "restore_at_startup s =
     (case memory_file s of
        None \<Rightarrow> Some s
      | Some text \<Rightarrow> (case restore text of None \<Rightarrow> None | Some h \<Rightarrow> Some (s\<lparr>history := h\<rparr>)))"

section \<open>Concrete environments\<close>

text \<open>
  The state of a fresh process, and an environment with both clients in which every
  provider call answers \<open>reply\<close>, every file exists, and the input/output handlers succeed
  and push one system turn.
\<close>

definition idle :: state where
  "idle = \<lparr>currentProvider = Google, history = [], pendingImage = None, memory_file = None,
           confirm_pending = [], browser_open = False\<rparr>"

definition scripted :: "jsstring \<Rightarrow> world" where
  "scripted reply =
     \<lparr>geminiModel = True, deepseek = True, SYSTEM_INSTRUCTIONS = js ''You are BEX.'',
      sendMessage = (\<lambda>req. Inr reply), create = (\<lambda>req. Inr reply),
      file_exists = (\<lambda>p. True), browser_close_error = None,
      io_handler = (\<lambda>cmd args s. Returns (s\<lparr>history := history s @
         [\<lparr>role = System, content = js ''Output of '' @ cmd\<rparr>]\<rparr>))\<rparr>"

text \<open>The number of model turns in a conversation.\<close>

definition model_turns :: "turn list \<Rightarrow> nat" where
  "model_turns h = length (filter (\<lambda>t. role t = Model) h)"


text \<open>
  An environment with both clients in which Gemini fails and DeepSeek answers.
\<close>

definition google_down :: world where
  "google_down =
     \<lparr>geminiModel = True, deepseek = True, SYSTEM_INSTRUCTIONS = js ''You are BEX.'',
      sendMessage = (\<lambda>req. Inl (js ''HTTP 503'')), create = (\<lambda>req. Inr (js ''hello'')),
      file_exists = (\<lambda>p. True), browser_close_error = None,
      io_handler = (\<lambda>cmd args s. Returns s)\<rparr>"



section \<open>Properties of the tool server\<close>




text \<open>
  Claim C10. The path check runs before the tool name is looked up: a request whose first
  argument contains \<^verbatim>\<open>..\<close> or is absolute is answered 400 whatever the tool name, so
  never 404; and the check reads the first argument only: the arguments after it do not
  change its verdict, and a request with an acceptable first argument is never answered
  400, whatever its later arguments are.
\<close>

theorem path_check_before_tool_lookup:
  "(invalid_path isAbs args \<longrightarrow>
      post_tool isAbs fs toolName args = (\<lparr>status = 400, body = ErrorBody invalid_path_message\<rparr>, fs)
      \<and> status (fst (post_tool isAbs fs toolName args)) \<noteq> 404)
   \<and> invalid_path isAbs (Some (a # rest)) = invalid_path isAbs (Some [a])
   \<and> (\<not> invalid_path isAbs (Some [a]) \<longrightarrow>
        status (fst (post_tool isAbs fs toolName (Some (a # rest)))) \<noteq> 400)"
  by (simp add: post_tool_def invalid_path_def split: option.split sum.split)

theorem path_check_before_tool_lookup_witness:
  "invalid_path posix_isAbsolute (Some [js ''/etc/passwd''])
   \<and> js ''ghost'' \<notin> set tools
   \<and> post_tool posix_isAbsolute fs0 (js ''ghost'') (Some [js ''/etc/passwd''])
       = (\<lparr>status = 400, body = ErrorBody invalid_path_message\<rparr>, fs0)
   \<and> \<not> invalid_path posix_isAbsolute (Some [js ''b.txt''])
   \<and> status (fst (post_tool posix_isAbsolute fs0 (js ''writeFile'')
        (Some [js ''b.txt'', js ''../../etc/passwd'', js ''/root/x'']))) = 200"
proof -
  have bad: "invalid_path posix_isAbsolute (Some [js ''/etc/passwd''])"
    by (simp add: invalid_path_def js_def posix_isAbsolute_def)
  have ghost: "js ''ghost'' \<notin> set tools"
    by (simp add: tools_def js_def)
  have ok: "\<not> invalid_path posix_isAbsolute (Some [js ''b.txt''])"
    by (simp add: invalid_path_def js_def posix_isAbsolute_def)
  have w: "status (fst (post_tool posix_isAbsolute fs0 (js ''writeFile'')
        (Some [js ''b.txt'', js ''../../etc/passwd'', js ''/root/x'']))) = 200"
    by (simp add: post_tool_def invalid_path_def posix_isAbsolute_def run_tool_def first_arg_def
        fs_writeFile_def fs0_def rest_joined_def js_def)
  show ?thesis
    using path_check_before_tool_lookup [of posix_isAbsolute "Some [js ''/etc/passwd'']" fs0 "js ''ghost''"]
      path_check_before_tool_lookup [of posix_isAbsolute _ fs0 "js ''writeFile''" "js ''b.txt''"
        "[js ''../../etc/passwd'', js ''/root/x'']"]
      bad ghost ok w
    by simp
qed

section \<open>Properties of the agent loop\<close>

lemma agent_steps_Stop:
  "step < bound \<Longrightarrow> agent_step w cmds s = Stop t s' \<Longrightarrow> agent_steps w cmds bound step s = (t, Suc step, s')"
  by (subst agent_steps.simps) simp

lemma agent_steps_Continue:
  "step < bound \<Longrightarrow> agent_step w cmds s = Continue s' \<Longrightarrow>
   agent_steps w cmds bound step s = agent_steps w cmds bound (Suc step) s'"
  by (subst agent_steps.simps) simp

lemma agent_steps_exhausted:
  "\<not> step < bound \<Longrightarrow> agent_steps w cmds bound step s = (MAX_STEPS_REACHED, step, s)"
  by (subst agent_steps.simps) simp

lemma split_space_not_Nil: "split_space s \<noteq> []"
  by (induction s) (auto split: list.splits)

lemma agent_step_continues:
  assumes provider: "\<And>s. history s \<noteq> [] \<Longrightarrow>
            \<exists>t. task_provider_call w s = Inr t \<and> toLowerCase (trim t) \<noteq> js ''/done''"
    and handlers: "\<And>s t cmd args h. history s \<noteq> [] \<Longrightarrow> task_provider_call w s = Inr t \<Longrightarrow>
            startsWith (trim t) (js ''/'') \<Longrightarrow> split_space (trim t) = cmd # args \<Longrightarrow>
            cmds cmd = Some h \<Longrightarrow>
            \<exists>s'. h args (s\<lparr>history := history s @ [\<lparr>role = Model, content = trim t\<rparr>]\<rparr>) = Returns s'
                 \<and> history s' \<noteq> []"
    and nonempty: "history s \<noteq> []"
  shows "\<exists>s'. agent_step w cmds s = Continue s' \<and> history s' \<noteq> []"
proof -
  obtain t where t: "task_provider_call w s = Inr t" and nd: "toLowerCase (trim t) \<noteq> js ''/done''"
    using provider [OF nonempty] by blast
  let ?s1 = "s\<lparr>history := history s @ [\<lparr>role = Model, content = trim t\<rparr>]\<rparr>"
  show ?thesis
  proof (cases "startsWith (trim t) (js ''/'')")
    case False
    with t nd have "agent_step w cmds s = Continue ?s1"
      by (simp add: agent_step_def)
    then show ?thesis by simp
  next
    case True
    obtain cmd args where sp: "split_space (trim t) = cmd # args"
      using split_space_not_Nil [of "trim t"] by (cases "split_space (trim t)") auto
    show ?thesis
    proof (cases "cmds cmd")
      case None
      with t nd True sp show ?thesis
        by (simp add: agent_step_def)
    next
      case (Some h)
      obtain s' where "h args ?s1 = Returns s'" and "history s' \<noteq> []"
        using handlers [OF nonempty t True sp Some] by blast
      with t nd True sp Some show ?thesis
        by (simp add: agent_step_def handler_result_def)
    qed
  qed
qed

lemma agent_steps_run_out:
  assumes provider: "\<And>s. history s \<noteq> [] \<Longrightarrow>
            \<exists>t. task_provider_call w s = Inr t \<and> toLowerCase (trim t) \<noteq> js ''/done''"
    and handlers: "\<And>s t cmd args h. history s \<noteq> [] \<Longrightarrow> task_provider_call w s = Inr t \<Longrightarrow>
            startsWith (trim t) (js ''/'') \<Longrightarrow> split_space (trim t) = cmd # args \<Longrightarrow>
            cmds cmd = Some h \<Longrightarrow>
            \<exists>s'. h args (s\<lparr>history := history s @ [\<lparr>role = Model, content = trim t\<rparr>]\<rparr>) = Returns s'
                 \<and> history s' \<noteq> []"
  shows "history s \<noteq> [] \<Longrightarrow> step \<le> bound \<Longrightarrow>
         \<exists>s'. agent_steps w cmds bound step s = (MAX_STEPS_REACHED, bound, s')"
proof (induction "bound - step" arbitrary: step s)
  case 0
  then have "step = bound" by simp
  then show ?case by (simp add: agent_steps_exhausted)
next
  case (Suc d)
  then have lt: "step < bound" by simp
  have "\<exists>s'. agent_step w cmds s = Continue s' \<and> history s' \<noteq> []"
    by (rule agent_step_continues [where w = w and cmds = cmds])
      (rule provider, assumption, (rule handlers; assumption), rule Suc.prems(1))
  then obtain s1 where c: "agent_step w cmds s = Continue s1" and ne: "history s1 \<noteq> []"
    by blast
  have "d = bound - Suc step" using Suc.hyps(2) by simp
  moreover have "Suc step \<le> bound" using lt by simp
  ultimately obtain s' where "agent_steps w cmds bound (Suc step) s1 = (MAX_STEPS_REACHED, bound, s')"
    using Suc.hyps(1) [of "Suc step" s1] ne by blast
  then show ?case
    using agent_steps_Continue [OF lt c] by simp
qed


text \<open>The handler of \<^verbatim>\<open>/task\<close> itself, with its bound of 20 steps and the table \<^verbatim>\<open>commands\<close>.\<close>

lemma task_exhausts_step_budget:
  assumes provider: "\<And>s. history s \<noteq> [] \<Longrightarrow>
            \<exists>t. task_provider_call w s = Inr t \<and> toLowerCase (trim t) \<noteq> js ''/done''"
    and handlers: "\<And>s t cmd args h. history s \<noteq> [] \<Longrightarrow> task_provider_call w s = Inr t \<Longrightarrow>
            startsWith (trim t) (js ''/'') \<Longrightarrow> split_space (trim t) = cmd # args \<Longrightarrow>
            map_of (commands w) cmd = Some h \<Longrightarrow>
            \<exists>s'. h args (s\<lparr>history := history s @ [\<lparr>role = Model, content = trim t\<rparr>]\<rparr>) = Returns s'
                 \<and> history s' \<noteq> []"
  shows "\<exists>s'. task w args s = (MAX_STEPS_REACHED, 20, s')"
proof -
  have "history (start_task args s) \<noteq> []"
    by (simp add: start_task_def)
  moreover have "(0::nat) \<le> maxSteps"
    by simp
  ultimately have "\<exists>s'. agent_steps w (map_of (commands w)) maxSteps 0 (start_task args s)
                        = (MAX_STEPS_REACHED, maxSteps, s')"
    by (rule agent_steps_run_out [where w = w and cmds = "map_of (commands w)", rotated 2])
      (rule provider, assumption, (rule handlers; assumption))
  then show ?thesis
    by (simp add: task_def run_task_def maxSteps_def)
qed

lemma scripted_call:
  "history s \<noteq> [] \<Longrightarrow> task_provider_call (scripted r) s = Inr r"
  by (cases "rev (history s)") (auto simp: task_provider_call_def task_google_request_def scripted_def)



text \<open>
  Claim C7, as amended. With any positive bound (3, or the 20 of the source), when the first
  provider call returns a text that, trimmed and in lower case, is \<^verbatim>\<open>/done\<close>, the loop ends
  in DONE after exactly one step, and exactly two turns have been appended to the
  conversation: the user turn of the start and one model turn, holding the trimmed text.
\<close>

theorem loop_done_on_first_call:
  assumes "0 < bound"
    and "task_provider_call w (start_task args s) = Inr t"
    and "toLowerCase (trim t) = js ''/done''"
  shows "run_task w cmds bound args s
         = (DONE, 1,
            s\<lparr>history := history s @
                 [\<lparr>role = User, content = task_prompt (join (js '' '') args)\<rparr>,
                  \<lparr>role = Model, content = trim t\<rparr>]\<rparr>)"
proof -
  have "agent_step w cmds (start_task args s)
        = Stop DONE ((start_task args s)\<lparr>history := history (start_task args s) @
            [\<lparr>role = Model, content = trim t\<rparr>]\<rparr>)"
    using assms(2,3) by (simp add: agent_step_def)
  then show ?thesis
    unfolding run_task_def
    by (subst agent_steps_Stop [OF assms(1)]) (simp_all add: start_task_def)
qed

theorem loop_done_on_first_call_witness:
  "run_task (scripted (js '' /Done '')) (map_of (commands (scripted (js '' /Done '')))) 3
     [js ''list'', js ''files''] idle
   = (DONE, 1,
      idle\<lparr>history := history idle @
             [\<lparr>role = User, content = task_prompt (join (js '' '') [js ''list'', js ''files''])\<rparr>,
              \<lparr>role = Model, content = js ''/Done''\<rparr>]\<rparr>)"
proof -
  have a: "(0::nat) < 3" by simp
  have b: "task_provider_call (scripted (js '' /Done '')) (start_task [js ''list'', js ''files''] idle)
           = Inr (js '' /Done '')"
    by (rule scripted_call) (simp add: start_task_def)
  have c: "trim (js '' /Done '') = js ''/Done''"
    by (simp add: trim_def is_white_def js_def)
  have d: "toLowerCase (trim (js '' /Done '')) = js ''/done''"
    unfolding c by (simp add: toLowerCase_def lower_unit_def js_def)
  show ?thesis
    using loop_done_on_first_call [OF a b d] c by simp
qed

text \<open>
  The claim as stated counts two model turns; the run appends one.
\<close>

theorem loop_done_on_first_call_counterexample:
  "fst (run_task (scripted (js ''/done'')) (map_of (commands (scripted (js ''/done'')))) 3
         [js ''list'', js ''files''] idle) = DONE
   \<and> fst (snd (run_task (scripted (js ''/done'')) (map_of (commands (scripted (js ''/done'')))) 3
         [js ''list'', js ''files''] idle)) = 1
   \<and> model_turns (history (snd (snd (run_task (scripted (js ''/done''))
         (map_of (commands (scripted (js ''/done'')))) 3 [js ''list'', js ''files''] idle))))
       = model_turns (history idle) + 1
   \<and> model_turns (history (snd (snd (run_task (scripted (js ''/done''))
         (map_of (commands (scripted (js ''/done'')))) 3 [js ''list'', js ''files''] idle))))
       \<noteq> model_turns (history idle) + 2"
proof -
  have step: "agent_step (scripted (js ''/done'')) (map_of (commands (scripted (js ''/done''))))
                (start_task [js ''list'', js ''files''] idle)
              = Stop DONE ((start_task [js ''list'', js ''files''] idle)\<lparr>history :=
                  history (start_task [js ''list'', js ''files''] idle) @
                  [\<lparr>role = Model, content = js ''/done''\<rparr>]\<rparr>)"
    by (simp add: agent_step_def scripted_call start_task_def trim_def is_white_def toLowerCase_def
        lower_unit_def js_def)
  have run: "run_task (scripted (js ''/done'')) (map_of (commands (scripted (js ''/done'')))) 3
         [js ''list'', js ''files''] idle
       = (DONE, 1, (start_task [js ''list'', js ''files''] idle)\<lparr>history :=
                  history (start_task [js ''list'', js ''files''] idle) @
                  [\<lparr>role = Model, content = js ''/done''\<rparr>]\<rparr>)"
    unfolding run_task_def
    by (subst agent_steps_Stop [OF _ step]) simp_all
  show ?thesis
    unfolding run
    by (simp add: model_turns_def start_task_def idle_def)
qed






section \<open>Properties of the provider gateway and of persistence\<close>

text \<open>
  The interactive path in mode \<^verbatim>\<open>auto\<close>: when Gemini fails and DeepSeek answers, the
  answer of DeepSeek is the one model turn appended; when DeepSeek fails too, its error
  is the one reported.
\<close>

lemma handleInput_auto_fallback:
  assumes "currentProvider s = Auto"
    and "fst (callGoogle w False line (s\<lparr>history := history s @ [\<lparr>role = User, content = line\<rparr>]\<rparr>)) = Inl e"
    and "callDeepSeek w False line (s\<lparr>history := history s @ [\<lparr>role = User, content = line\<rparr>]\<rparr>) = Inr r"
  shows "fst (handleInput_chat w line False s) = None
         \<and> history (snd (handleInput_chat w line False s))
             = history s @ [\<lparr>role = User, content = line\<rparr>, \<lparr>role = Model, content = r\<rparr>]"
proof -
  let ?s0 = "s\<lparr>history := history s @ [\<lparr>role = User, content = line\<rparr>]\<rparr>"
  obtain s1 where g: "callGoogle w False line ?s0 = (Inl e, s1)"
    using assms(2) by (cases "callGoogle w False line ?s0") auto
  have h1: "history s1 = history ?s0"
    using g by (auto simp: callGoogle_def split: if_splits)
  have "callDeepSeek w False line s1 = callDeepSeek w False line ?s0"
    using h1 by (simp add: callDeepSeek_def)
  with assms(3) have d: "callDeepSeek w False line s1 = Inr r"
    by simp
  have "provider_call w False line ?s0 = (Inr r, s1)"
    using assms(1) g d by (simp add: provider_call_def)
  then show ?thesis
    using h1 by (simp add: handleInput_chat_def Let_def)
qed

lemma handleInput_secondary_error:
  assumes "currentProvider s = Auto"
    and "fst (callGoogle w False line (s\<lparr>history := history s @ [\<lparr>role = User, content = line\<rparr>]\<rparr>)) = Inl e"
    and "callDeepSeek w False line (s\<lparr>history := history s @ [\<lparr>role = User, content = line\<rparr>]\<rparr>) = Inl e2"
  shows "fst (handleInput_chat w line False s) = Some e2"
proof -
  let ?s0 = "s\<lparr>history := history s @ [\<lparr>role = User, content = line\<rparr>]\<rparr>"
  obtain s1 where g: "callGoogle w False line ?s0 = (Inl e, s1)"
    using assms(2) by (cases "callGoogle w False line ?s0") auto
  have h1: "history s1 = history ?s0"
    using g by (auto simp: callGoogle_def split: if_splits)
  have "callDeepSeek w False line s1 = callDeepSeek w False line ?s0"
    using h1 by (simp add: callDeepSeek_def)
  with assms(3) have d: "callDeepSeek w False line s1 = Inl e2"
    by simp
  have "provider_call w False line ?s0 = (Inl e2, s1)"
    using assms(1) g d by (simp add: provider_call_def)
  then show ?thesis
    by (simp add: handleInput_chat_def Let_def)
qed

text \<open>
  Claim C2. In mode \<^verbatim>\<open>auto\<close> a failure of the primary backend is to be followed by a call
  of the secondary within the same request. The loop of \<^verbatim>\<open>/task\<close> does not do so: with
  both clients present, Gemini failing and DeepSeek ready to answer, the step ends the
  loop with the error of Gemini and no model turn, where the interactive path, in the same
  state and environment, appends the answer of DeepSeek.
\<close>

theorem task_auto_mode_no_fallback:
  "currentProvider (idle\<lparr>currentProvider := Auto\<rparr>) = Auto
   \<and> create google_down [] = Inr (js ''hello'')
   \<and> task google_down [js ''tidy''] (idle\<lparr>currentProvider := Auto\<rparr>)
       = (ABORTED (js ''HTTP 503''), 1, start_task [js ''tidy''] (idle\<lparr>currentProvider := Auto\<rparr>))
   \<and> model_turns (history (start_task [js ''tidy''] (idle\<lparr>currentProvider := Auto\<rparr>))) = 0
   \<and> fst (handleInput_chat google_down (js ''tidy'') False (idle\<lparr>currentProvider := Auto\<rparr>)) = None
   \<and> history (snd (handleInput_chat google_down (js ''tidy'') False (idle\<lparr>currentProvider := Auto\<rparr>)))
       = [\<lparr>role = User, content = js ''tidy''\<rparr>, \<lparr>role = Model, content = js ''hello''\<rparr>]"
proof -
  let ?s = "idle\<lparr>currentProvider := Auto\<rparr>"
  have call: "task_provider_call google_down (start_task [js ''tidy''] ?s) = Inl (js ''HTTP 503'')"
    by (simp add: task_provider_call_def task_google_request_def google_down_def start_task_def idle_def)
  have step: "agent_step google_down (map_of (commands google_down)) (start_task [js ''tidy''] ?s)
              = Stop (ABORTED (js ''HTTP 503'')) (start_task [js ''tidy''] ?s)"
    by (simp add: agent_step_def call)
  have run: "task google_down [js ''tidy''] ?s
             = (ABORTED (js ''HTTP 503''), 1, start_task [js ''tidy''] ?s)"
    unfolding task_def run_task_def
    by (subst agent_steps_Stop [OF _ step]) (simp_all add: maxSteps_def)
  have chat: "handleInput_chat google_down (js ''tidy'') False ?s
              = (None, ?s\<lparr>history := [\<lparr>role = User, content = js ''tidy''\<rparr>, \<lparr>role = Model, content = js ''hello''\<rparr>],
                   memory_file := Some (utf8_text (JSON_stringify
                      [\<lparr>role = User, content = js ''tidy''\<rparr>, \<lparr>role = Model, content = js ''hello''\<rparr>]))\<rparr>)"
    by (simp add: handleInput_chat_def provider_call_def callGoogle_def callDeepSeek_def google_down_def
        idle_def Let_def)
  show ?thesis
    unfolding run chat
    by (simp add: google_down_def model_turns_def start_task_def idle_def)
qed

text \<open>
  The interactive path writes the whole conversation to the snapshot file after the model
  turn it appends.
\<close>

lemma handleInput_persists:
  assumes "handleInput_chat w line isSystemPrompt s = (None, s')"
  shows "memory_file s' = Some (utf8_text (JSON_stringify (history s')))"
  using assms
  by (auto simp: handleInput_chat_def Let_def split: prod.splits sum.splits)

text \<open>
  Claim C3. After every append of a model turn the whole conversation is to be written to
  the snapshot file. The step of the agent loop appends its model turn without writing the
  file: after a run of \<^verbatim>\<open>/task\<close> that ends in DONE, the conversation holds a model turn
  and the snapshot file is still absent.
\<close>

theorem task_model_turn_not_persisted:
  "task (scripted (js ''/done'')) [js ''tidy''] idle
     = (DONE, 1, idle\<lparr>history := [\<lparr>role = User, content = task_prompt (js ''tidy'')\<rparr>,
                                    \<lparr>role = Model, content = js ''/done''\<rparr>]\<rparr>)
   \<and> memory_file (snd (snd (task (scripted (js ''/done'')) [js ''tidy''] idle))) = None
   \<and> memory_file (snd (snd (task (scripted (js ''/done'')) [js ''tidy''] idle)))
       \<noteq> Some (utf8_text (JSON_stringify
                 (history (snd (snd (task (scripted (js ''/done'')) [js ''tidy''] idle))))))"
proof -
  have a: "(0::nat) < maxSteps" by (simp add: maxSteps_def)
  have b: "task_provider_call (scripted (js ''/done'')) (start_task [js ''tidy''] idle) = Inr (js ''/done'')"
    by (rule scripted_call) (simp add: start_task_def)
  have tr: "trim (js ''/done'') = js ''/done''"
    by (simp add: trim_def is_white_def js_def)
  have c: "toLowerCase (trim (js ''/done'')) = js ''/done''"
    unfolding tr by (simp add: toLowerCase_def lower_unit_def js_def)
  have step: "agent_step (scripted (js ''/done'')) (map_of (commands (scripted (js ''/done''))))
                (start_task [js ''tidy''] idle)
              = Stop DONE (idle\<lparr>history := [\<lparr>role = User, content = task_prompt (js ''tidy'')\<rparr>,
                                    \<lparr>role = Model, content = js ''/done''\<rparr>]\<rparr>)"
    using b c tr by (simp add: agent_step_def start_task_def idle_def)
  have run: "task (scripted (js ''/done'')) [js ''tidy''] idle
     = (DONE, 1, idle\<lparr>history := [\<lparr>role = User, content = task_prompt (js ''tidy'')\<rparr>,
                                    \<lparr>role = Model, content = js ''/done''\<rparr>]\<rparr>)"
    unfolding task_def run_task_def
    by (subst agent_steps_Stop [OF a step]) simp
  show ?thesis
    unfolding run by (simp add: idle_def)
qed






section \<open>Properties of the snapshot\<close>

subsection \<open>String literals\<close>

lemma hex_value_digit: "n < 16 \<Longrightarrow> hex_value (hex_digit n) = Some n"
proof (cases "n < 10")
  case True
  then have u: "unat (0x30 + of_nat n :: code_unit) = 48 + n"
    by (simp add: unat_word_ariths unat_of_nat)
  then show ?thesis
    using True by (simp add: hex_value_def hex_digit_def word_le_nat_alt)
next
  case False
  assume "n < 16"
  with False have u: "unat (0x61 + of_nat (n - 10) :: code_unit) = 97 + (n - 10)"
    by (simp add: unat_word_ariths unat_of_nat)
  then show ?thesis
    using False \<open>n < 16\<close> by (simp add: hex_value_def hex_digit_def word_le_nat_alt)
qed

lemma hex_digits_sum:
  assumes "u < 65536"
  shows "4096 * (u div 4096 mod 16) + 256 * (u div 256 mod 16) + 16 * (u div 16 mod 16) + u mod 16
         = (u::nat)"
proof -
  have a: "u div 4096 mod 16 = u div 4096"
    using assms by simp
  have "u div 256 div 16 = u div (256 * 16)"
    by (rule div_mult2_eq [symmetric])
  then have e: "u div 4096 = u div 256 div 16"
    by simp
  have b: "u div 256 = 16 * (u div 4096) + u div 256 mod 16"
    unfolding e by (rule mult_div_mod_eq [symmetric])
  have "u div 16 div 16 = u div (16 * 16)"
    by (rule div_mult2_eq [symmetric])
  then have f: "u div 256 = u div 16 div 16"
    by simp
  have c: "u div 16 = 16 * (u div 256) + u div 16 mod 16"
    unfolding f by (rule mult_div_mod_eq [symmetric])
  have d: "u = 16 * (u div 16) + u mod 16"
    by simp
  show ?thesis
    using a b c d by linarith
qed

lemma hex4_digits:
  "hex4 (hex_digit (unat c div 4096 mod 16)) (hex_digit (unat c div 256 mod 16))
        (hex_digit (unat c div 16 mod 16)) (hex_digit (unat c mod 16)) = Some (c :: code_unit)"
proof -
  have "unat c < 65536"
    using unsigned_less [of c, where 'a = nat] by simp
  then have "4096 * (unat c div 4096 mod 16) + 256 * (unat c div 256 mod 16)
             + 16 * (unat c div 16 mod 16) + unat c mod 16 = unat c"
    by (rule hex_digits_sum)
  then have "(of_nat (4096 * (unat c div 4096 mod 16) + 256 * (unat c div 256 mod 16)
             + 16 * (unat c div 16 mod 16) + unat c mod 16) :: code_unit) = of_nat (unat c)"
    by (simp only:)
  then show ?thesis
    by (simp add: hex4_def hex_value_digit)
qed

lemma parse_chars_literal:
  "c \<noteq> 0x22 \<Longrightarrow> c \<noteq> 0x5C \<Longrightarrow> \<not> c < 0x20 \<Longrightarrow>
   parse_chars (c # t) = (case parse_chars t of None \<Rightarrow> None | Some (s, r) \<Rightarrow> Some (c # s, r))"
  by simp

lemma parse_chars_unicode_escape:
  "parse_chars (UnicodeEscape c @ t) = (case parse_chars t of None \<Rightarrow> None | Some (s, r) \<Rightarrow> Some (c # s, r))"
  by (simp add: UnicodeEscape_def hex4_digits)

lemma parse_chars_quote_unit:
  "parse_chars (quote_unit c @ t) = (case parse_chars t of None \<Rightarrow> None | Some (s, r) \<Rightarrow> Some (c # s, r))"
proof -
  consider "c = 0x08" | "c = 0x09" | "c = 0x0A" | "c = 0x0C" | "c = 0x0D" | "c = 0x22" | "c = 0x5C"
    | "c \<notin> set [0x08, 0x09, 0x0A, 0x0C, 0x0D, 0x22, 0x5C]" "c < 0x20 \<or> is_leading c \<or> is_trailing c"
    | "c \<notin> set [0x08, 0x09, 0x0A, 0x0C, 0x0D, 0x22, 0x5C]" "\<not> (c < 0x20 \<or> is_leading c \<or> is_trailing c)"
    by auto
  then show ?thesis
  proof cases
    case 8
    then have "quote_unit c = UnicodeEscape c"
      by (simp add: quote_unit_def)
    then show ?thesis
      by (simp only: parse_chars_unicode_escape)
  next
    case 9
    then have "quote_unit c = [c]"
      by (simp add: quote_unit_def)
    with 9 show ?thesis
      by simp
  qed (auto simp: quote_unit_def unescape_def)
qed

lemma surrogate_is_literal:
  "is_leading c \<or> is_trailing c \<Longrightarrow> c \<noteq> 0x22 \<and> c \<noteq> 0x5C \<and> \<not> c < 0x20"
  by (auto simp: is_leading_def is_trailing_def word_le_nat_alt word_less_nat_alt)

lemma parse_chars_quote_units:
  "parse_chars (quote_units s @ 0x22 # rest) = Some (s, rest)"
proof (induction s rule: quote_units.induct)
  case 1
  show ?case by simp
next
  case (2 c)
  show ?case
    by (simp add: parse_chars_quote_unit)
next
  case (3 c d ds)
  show ?case
  proof (cases "is_leading c \<and> is_trailing d")
    case True
    then have c: "c \<noteq> 0x22 \<and> c \<noteq> 0x5C \<and> \<not> c < 0x20"
      and d: "d \<noteq> 0x22 \<and> d \<noteq> 0x5C \<and> \<not> d < 0x20"
      using surrogate_is_literal [of c] surrogate_is_literal [of d] by simp_all
    have "quote_units (c # d # ds) @ 0x22 # rest = c # d # (quote_units ds @ 0x22 # rest)"
      using True by simp
    then show ?thesis
      using c d "3.IH"(1) [OF True] by (simp del: quote_units.simps)
  next
    case False
    then have f: "(is_leading c \<and> is_trailing d) = False"
      by simp
    have "quote_units (c # d # ds) @ 0x22 # rest
               = quote_unit c @ (quote_units (d # ds) @ 0x22 # rest)"
      by (simp only: quote_units.simps f if_False append_assoc)
    then show ?thesis
      using "3.IH"(2) [OF False] by (simp add: parse_chars_quote_unit del: quote_units.simps)
  qed
qed

lemma parse_string_QuoteJSONString:
  "parse_string (QuoteJSONString s @ rest) = Some (s, rest)"
  by (simp add: parse_string_def QuoteJSONString_def parse_chars_quote_units)

subsection \<open>Objects and arrays\<close>

lemma skip_ws_Quote [simp]: "skip_ws (QuoteJSONString s @ r) = QuoteJSONString s @ r"
  by (simp add: skip_ws_def QuoteJSONString_def is_json_ws_def)

lemma skip_ws_Cons:
  "skip_ws (c # r) = (if is_json_ws c then skip_ws r else c # r)"
  by (simp add: skip_ws_def)

lemma parse_member_quoted:
  "parse_member (QuoteJSONString k @ 0x3A # 0x20 # QuoteJSONString v @ rest) = Some ((k, v), rest)"
  by (simp add: parse_member_def parse_string_QuoteJSONString skip_ws_Cons is_json_ws_def)

lemma stringify_turn_unfold:
  "stringify_turn t @ rest
   = 0x7B # 0x0A # 0x20 # 0x20 # 0x20 # 0x20 #
     (QuoteJSONString (js ''role'') @ 0x3A # 0x20 # QuoteJSONString (role_name (role t)) @
      0x2C # 0x0A # 0x20 # 0x20 # 0x20 # 0x20 #
      (QuoteJSONString (js ''content'') @ 0x3A # 0x20 # QuoteJSONString (content t) @
       0x0A # 0x20 # 0x20 # 0x7D # rest))"
proof -
  have "js ''{'' = [0x7B]" "js ''    '' = [0x20, 0x20, 0x20, 0x20]" "js '': '' = [0x3A, 0x20]"
    "js '','' = [0x2C]" "js ''  }'' = [0x20, 0x20, 0x7D]"
    by (simp_all add: js_def)
  then show ?thesis
    by (simp add: stringify_turn_def)
qed

lemma parse_object_turn:
  "parse_object (stringify_turn t @ rest) = Some (turn_object t, rest)"
proof -
  let ?tail2 = "0x0A # 0x20 # 0x20 # 0x7D # rest"
  let ?m2 = "QuoteJSONString (js ''content'') @ 0x3A # 0x20 # QuoteJSONString (content t) @ ?tail2"
  let ?tail1 = "0x2C # 0x0A # 0x20 # 0x20 # 0x20 # 0x20 # ?m2"
  let ?m1 = "QuoteJSONString (js ''role'') @ 0x3A # 0x20 # QuoteJSONString (role_name (role t)) @ ?tail1"
  have m2: "parse_members ?m2 = Some ([(js ''content'', content t)], rest)"
    by (subst parse_members.simps)
       (simp add: parse_member_quoted skip_ws_Cons is_json_ws_def)
  have sk: "skip_ws (0x0A # 0x20 # 0x20 # 0x20 # 0x20 # ?m2) = ?m2"
    by (simp add: skip_ws_Cons is_json_ws_def)
  have m1: "parse_members ?m1 = Some (turn_object t, rest)"
    by (subst parse_members.simps)
       (simp add: parse_member_quoted skip_ws_Cons [of "0x2C"] is_json_ws_def sk m2 turn_object_def)
  have sk1: "skip_ws (0x0A # 0x20 # 0x20 # 0x20 # 0x20 # ?m1) = ?m1"
    by (simp add: skip_ws_Cons is_json_ws_def)
  have q: "?m1 = 0x22 # tl ?m1"
    by (simp add: QuoteJSONString_def)
  have "parse_object (0x7B # 0x0A # 0x20 # 0x20 # 0x20 # 0x20 # ?m1) = parse_members ?m1"
    unfolding parse_object_def list.case sk1
    by (subst q) simp
  then show ?thesis
    by (simp only: stringify_turn_unfold m1)
qed

lemma stringify_turn_starts: "stringify_turn t @ r = 0x7B # tl (stringify_turn t @ r)"
  by (simp add: stringify_turn_unfold)

lemma join_turns_starts:
  "h \<noteq> [] \<Longrightarrow>
   join sep (map stringify_turn h) @ r = 0x7B # tl (join sep (map stringify_turn h) @ r)"
proof (cases h)
  case Nil
  assume "h \<noteq> []"
  with Nil show ?thesis by simp
next
  case (Cons t ts)
  show ?thesis
  proof (cases ts)
    case Nil
    with Cons show ?thesis
      using stringify_turn_starts [of t r] by simp
  next
    case (Cons t' ts')
    with \<open>h = t # ts\<close> show ?thesis
      using stringify_turn_starts [of t "sep @ join sep (map stringify_turn (t' # ts')) @ r"]
      by simp
  qed
qed

lemma skip_ws_join_turns:
  "h \<noteq> [] \<Longrightarrow>
   skip_ws (join sep (map stringify_turn h) @ r) = join sep (map stringify_turn h) @ r"
proof -
  assume "h \<noteq> []"
  then have "join sep (map stringify_turn h) @ r = 0x7B # tl (join sep (map stringify_turn h) @ r)"
    by (rule join_turns_starts)
  then obtain x where e: "join sep (map stringify_turn h) @ r = 0x7B # x"
    by blast
  show ?thesis
    unfolding e by (simp add: skip_ws_Cons is_json_ws_def)
qed

lemma parse_elements_turns:
  "h \<noteq> [] \<Longrightarrow>
   parse_elements (join [0x2C, 0x0A, 0x20, 0x20] (map stringify_turn h) @ 0x0A # 0x5D # rest)
   = Some (map turn_object h, rest)"
proof (induction h)
  case Nil
  then show ?case by simp
next
  case (Cons t ts)
  show ?case
  proof (cases ts)
    case Nil
    have "parse_elements (stringify_turn t @ 0x0A # 0x5D # rest) = Some ([turn_object t], rest)"
      by (subst parse_elements.simps) (simp add: parse_object_turn skip_ws_Cons is_json_ws_def)
    with Nil show ?thesis by simp
  next
    case (Cons t' ts')
    let ?J = "join [0x2C, 0x0A, 0x20, 0x20] (map stringify_turn ts) @ 0x0A # 0x5D # rest"
    have ne: "ts \<noteq> []" using Cons by simp
    have ih: "parse_elements ?J = Some (map turn_object ts, rest)"
      using Cons.IH [OF ne] .
    have sk: "skip_ws (0x0A # 0x20 # 0x20 # ?J) = ?J"
      using skip_ws_join_turns [OF ne, of "[0x2C, 0x0A, 0x20, 0x20]" "0x0A # 0x5D # rest"]
      by (simp add: skip_ws_Cons is_json_ws_def)
    have "parse_elements (stringify_turn t @ 0x2C # 0x0A # 0x20 # 0x20 # ?J)
          = Some (turn_object t # map turn_object ts, rest)"
      by (subst parse_elements.simps)
         (simp add: parse_object_turn skip_ws_Cons [of "0x2C"] is_json_ws_def sk ih)
    with Cons show ?thesis by simp
  qed
qed

lemma JSON_parse_stringify: "JSON_parse (JSON_stringify h) = Some (map turn_object h)"
proof (cases "h = []")
  case True
  have "js ''[]'' = [0x5B, 0x5D]" by (simp add: js_def)
  with True show ?thesis
    by (simp add: JSON_parse_def JSON_stringify_def parse_array_def skip_ws_Cons is_json_ws_def skip_ws_def)
next
  case False
  let ?J = "join [0x2C, 0x0A, 0x20, 0x20] (map stringify_turn h) @ 0x0A # 0x5D # []"
  have lits: "js ''['' = [0x5B]" "js ''  '' = [0x20, 0x20]" "js '','' = [0x2C]" "js '']'' = [0x5D]"
    by (simp_all add: js_def)
  have doc: "JSON_stringify h = 0x5B # 0x0A # 0x20 # 0x20 # ?J"
    using False by (simp add: JSON_stringify_def lits)
  obtain x where e: "?J = 0x7B # x"
    using join_turns_starts [OF False, of "[0x2C, 0x0A, 0x20, 0x20]" "0x0A # 0x5D # []"] by blast
  have sk: "skip_ws (0x0A # 0x20 # 0x20 # ?J) = ?J"
    using skip_ws_join_turns [OF False, of "[0x2C, 0x0A, 0x20, 0x20]" "0x0A # 0x5D # []"]
    by (simp add: skip_ws_Cons is_json_ws_def)
  have "parse_array (0x5B # 0x0A # 0x20 # 0x20 # ?J) = parse_elements ?J"
    unfolding parse_array_def list.case sk
    by (subst e) simp
  then have "parse_array (skip_ws (JSON_stringify h)) = Some (map turn_object h, [])"
    unfolding doc using parse_elements_turns [OF False, of "[]"]
    by (simp add: skip_ws_Cons is_json_ws_def)
  then show ?thesis
    by (simp add: JSON_parse_def skip_ws_def)
qed

lemma role_of_name_role_name: "role_of_name (role_name r) = Some r"
  by (cases r) (simp_all add: role_of_name_def js_def)

lemma turn_of_object_turn_object: "turn_of_object (turn_object t) = Some t"
proof -
  have "js ''role'' \<noteq> js ''content''"
    by (simp add: js_def)
  then show ?thesis
    by (simp add: turn_of_object_def turn_object_def role_of_name_role_name)
qed

lemma those_turns: "those (map (turn_of_object \<circ> turn_object) h) = Some h"
  by (induction h) (simp_all add: turn_of_object_turn_object)

lemma restore_stringify: "restore (JSON_stringify h) = Some h"
  by (simp add: restore_def JSON_parse_stringify those_turns)

subsection \<open>The text in the file\<close>

text \<open>
  The serialized conversation holds no unpaired surrogate, so that writing it in UTF-8 and
  reading it back does not change it.
\<close>

lemma utf8_text_plain:
  "\<not> is_leading c \<Longrightarrow> \<not> is_trailing c \<Longrightarrow> utf8_text (c # xs) = c # utf8_text xs"
  by (cases xs) simp_all

lemma utf8_text_plain_prefix:
  "list_all (\<lambda>c. \<not> is_leading c \<and> \<not> is_trailing c) q \<Longrightarrow> utf8_text (q @ r) = q @ utf8_text r"
  by (induction q) (simp_all add: utf8_text_plain del: utf8_text.simps)

lemma below_surrogates: "c < 0xD800 \<Longrightarrow> \<not> is_leading c \<and> \<not> is_trailing c"
  by (auto simp: is_leading_def is_trailing_def word_le_nat_alt word_less_nat_alt)

lemma hex_digit_plain: "n < 16 \<Longrightarrow> \<not> is_leading (hex_digit n) \<and> \<not> is_trailing (hex_digit n)"
proof (cases "n < 10")
  case True
  then have u: "unat (0x30 + of_nat n :: code_unit) = 48 + n"
    by (simp add: unat_word_ariths unat_of_nat)
  have "hex_digit n < 0xD800"
    using True u by (simp add: hex_digit_def word_less_nat_alt)
  then show ?thesis
    by (rule below_surrogates)
next
  case False
  assume "n < 16"
  with False have u: "unat (0x61 + of_nat (n - 10) :: code_unit) = 97 + (n - 10)"
    by (simp add: unat_word_ariths unat_of_nat)
  have "hex_digit n < 0xD800"
    using False \<open>n < 16\<close> u by (simp add: hex_digit_def word_less_nat_alt)
  then show ?thesis
    by (rule below_surrogates)
qed

lemma UnicodeEscape_plain:
  "list_all (\<lambda>c. \<not> is_leading c \<and> \<not> is_trailing c) (UnicodeEscape c)"
  by (simp add: UnicodeEscape_def hex_digit_plain below_surrogates)

lemma quote_unit_plain:
  "list_all (\<lambda>c. \<not> is_leading c \<and> \<not> is_trailing c) (quote_unit c)"
  by (simp add: quote_unit_def UnicodeEscape_plain below_surrogates)

lemma utf8_text_quote_units:
  "r = [] \<or> \<not> is_trailing (hd r) \<Longrightarrow> utf8_text (quote_units s @ r) = quote_units s @ utf8_text r"
proof (induction s rule: quote_units.induct)
  case 1
  show ?case by simp
next
  case (2 c)
  show ?case
    by (simp add: utf8_text_plain_prefix quote_unit_plain)
next
  case (3 c d ds)
  show ?case
  proof (cases "is_leading c \<and> is_trailing d")
    case True
    then have "quote_units (c # d # ds) @ r = c # d # (quote_units ds @ r)"
      by simp
    moreover have "utf8_text (c # d # (quote_units ds @ r)) = c # d # utf8_text (quote_units ds @ r)"
      using True by simp
    ultimately show ?thesis
      using "3.IH"(1) [OF True "3.prems"] True by simp
  next
    case False
    then have f: "(is_leading c \<and> is_trailing d) = False"
      by simp
    have "quote_units (c # d # ds) @ r = quote_unit c @ (quote_units (d # ds) @ r)"
      by (simp only: quote_units.simps f if_False append_assoc)
    then show ?thesis
      using "3.IH"(2) [OF False "3.prems"]
      by (simp add: utf8_text_plain_prefix quote_unit_plain del: quote_units.simps utf8_text.simps)
  qed
qed

lemma utf8_text_Quote:
  "r = [] \<or> \<not> is_trailing (hd r) \<Longrightarrow>
   utf8_text (QuoteJSONString s @ r) = QuoteJSONString s @ utf8_text r"
proof -
  assume r: "r = [] \<or> \<not> is_trailing (hd r)"
  have q: "\<not> is_leading (0x22 :: code_unit)" "\<not> is_trailing (0x22 :: code_unit)"
    by (simp_all add: below_surrogates)
  have "utf8_text (quote_units s @ 0x22 # r) = quote_units s @ utf8_text (0x22 # r)"
    by (rule utf8_text_quote_units) (simp add: q)
  then show ?thesis
    by (simp add: QuoteJSONString_def utf8_text_plain q del: utf8_text.simps)
qed

lemma utf8_text_stringify_turn:
  "utf8_text (stringify_turn t @ r) = stringify_turn t @ utf8_text r"
  unfolding stringify_turn_unfold
  by (simp add: utf8_text_plain utf8_text_Quote below_surrogates del: utf8_text.simps)

lemma utf8_text_join_turns:
  "utf8_text (join [0x2C, 0x0A, 0x20, 0x20] (map stringify_turn h) @ r)
   = join [0x2C, 0x0A, 0x20, 0x20] (map stringify_turn h) @ utf8_text r"
proof (induction h)
  case Nil
  show ?case by simp
next
  case (Cons t ts)
  show ?case
  proof (cases ts)
    case Nil
    then show ?thesis
      by (simp add: utf8_text_stringify_turn del: utf8_text.simps)
  next
    case (Cons t' ts')
    with Cons.IH show ?thesis
      by (simp add: utf8_text_stringify_turn utf8_text_plain below_surrogates
          del: utf8_text.simps)
  qed
qed

lemma utf8_text_JSON_stringify: "utf8_text (JSON_stringify h) = JSON_stringify h"
proof (cases "h = []")
  case True
  then show ?thesis
    by (simp add: JSON_stringify_def js_def below_surrogates)
next
  case False
  have lits: "js ''['' = [0x5B]" "js ''  '' = [0x20, 0x20]" "js '','' = [0x2C]" "js '']'' = [0x5D]"
    by (simp_all add: js_def)
  have "utf8_text (0x5B # 0x0A # 0x20 # 0x20 #
          (join [0x2C, 0x0A, 0x20, 0x20] (map stringify_turn h) @ [0x0A, 0x5D]))
        = 0x5B # 0x0A # 0x20 # 0x20 #
          (join [0x2C, 0x0A, 0x20, 0x20] (map stringify_turn h) @ [0x0A, 0x5D])"
    by (simp add: utf8_text_plain utf8_text_join_turns below_surrogates)
  with False show ?thesis
    by (simp add: JSON_stringify_def lits)
qed

text \<open>
  Two concrete texts: the snapshot of a conversation whose one turn holds a line feed and
  an unpaired surrogate, and a document written by hand, without indentation, with the
  members in the other order and with the escapes \<^verbatim>\<open>\u0041\<close> and \<^verbatim>\<open>\/\<close>.
\<close>

lemma JSON_stringify_example:
  "JSON_stringify [\<lparr>role = User, content = js ''hi'' @ [0x0A, 0xD800]\<rparr>]
   = js ''['' @ [0x0A] @
     js ''  {'' @ [0x0A] @
     js ''    '' @ [0x22] @ js ''role'' @ [0x22] @ js '': '' @ [0x22] @ js ''user'' @ [0x22] @ js '','' @ [0x0A] @
     js ''    '' @ [0x22] @ js ''content'' @ [0x22] @ js '': '' @
       [0x22] @ js ''hi'' @ [0x5C] @ js ''n'' @ [0x5C] @ js ''ud800'' @ [0x22] @ [0x0A] @
     js ''  }'' @ [0x0A] @
     js '']''"
  by (simp add: JSON_stringify_def stringify_turn_def QuoteJSONString_def quote_unit_def
      UnicodeEscape_def hex_digit_def is_leading_def is_trailing_def js_def)

lemma restore_example:
  "restore (js ''[{'' @ [0x22] @ js ''content'' @ [0x22] @ js '':'' @
             [0x22, 0x5C] @ js ''u0041'' @ [0x5C] @ js ''/'' @ [0x22] @ js '','' @
             [0x22] @ js ''role'' @ [0x22] @ js '' : '' @ [0x22] @ js ''model'' @ [0x22] @ js ''} ]'')
   = Some [\<lparr>role = Model, content = js ''A/''\<rparr>]"
  by (simp add: restore_def JSON_parse_def parse_array_def parse_object_def parse_members.simps
      parse_elements.simps parse_member_def parse_string_def hex4_def hex_value_def unescape_def
      skip_ws_def is_json_ws_def turn_of_object_def role_of_name_def js_def)

text \<open>
  Claim C5. For every sequence of turns, restoring the persisted snapshot of the
  conversation yields the sequence that was serialized: the text that
  \<^verbatim>\<open>JSON.stringify(history, null, 2)\<close> produces, written to the snapshot file in UTF-8 and
  read back, is parsed into the same turns in the same order, whatever code units their
  contents hold.
\<close>

theorem snapshot_round_trip: "restore (utf8_text (JSON_stringify h)) = Some h"
  by (simp add: utf8_text_JSON_stringify restore_stringify)

text \<open>
  A chat turn that succeeded, followed by a start of the process, resumes with the
  conversation as the chat turn left it.
\<close>

lemma restore_after_chat:
  assumes "handleInput_chat w line isSystemPrompt s = (None, s')"
  shows "restore_at_startup s' = Some s'"
proof -
  have "memory_file s' = Some (utf8_text (JSON_stringify (history s')))"
    using assms by (rule handleInput_persists)
  moreover have "restore (utf8_text (JSON_stringify (history s'))) = Some (history s')"
    by (simp add: utf8_text_JSON_stringify restore_stringify)
  ultimately show ?thesis
    by (simp add: restore_at_startup_def)
qed

end
